theory Spec2Isabelle
  imports Complex_Main
begin

unbundle bit_operations_syntax

section \<open>Data model of the transfer reassembler\<close>

text \<open>
  The embedding follows \<^verbatim>\<open>_transfer_reassembler.py\<close>. A \<^verbatim>\<open>memoryview\<close> over
  received bytes is a list of 8-bit characters; Python integers that the source keeps
  non-negative (frame index, transfer-ID, node-ID, sizes) are natural numbers, and the
  places where the source subtracts below zero are written over \<open>int\<close>.
\<close>

type_synonym bytes = string

text \<open>
  Modelled from the spec: \<^verbatim>\<open>pyuavcan.transport.Timestamp\<close> is not part of the file; it is
  a pair of system and monotonic nanoseconds, and its property \<^verbatim>\<open>monotonic\<close> is the
  monotonic time in seconds. The seconds are exact decimals in the source, here rationals;
  the timeout, a finite float in the source, is the rational it denotes.
\<close>

record timestamp =
  system_ns :: int
  monotonic_ns :: int

definition monotonic :: "timestamp \<Rightarrow> rat" where
  "monotonic ts = of_int (monotonic_ns ts) / 1000000000"

text \<open>
  Modelled from the spec: \<^verbatim>\<open>pyuavcan.transport.Priority\<close> is an enumeration that is not
  part of the file; the reassembler only forwards it.
\<close>

datatype priority =
  EXCEPTIONAL | IMMEDIATE | FAST | HIGH | NOMINAL | LOW | SLOW | OPTIONAL

text \<open>
  Modelled from the spec: the class \<^verbatim>\<open>Frame\<close> is imported from \<^verbatim>\<open>._frame\<close>; these are
  the six fields that the reassembler reads.
\<close>

record frame =
  timestamp :: timestamp
  priority :: priority
  transfer_id :: nat
  index :: nat
  end_of_transfer :: bool
  payload :: bytes

definition single_frame_transfer :: "frame \<Rightarrow> bool" where
  "single_frame_transfer fr \<longleftrightarrow> index fr = 0 \<and> end_of_transfer fr"

text \<open>
  \<^verbatim>\<open>pyuavcan.transport.TransferFrom\<close>, as the source constructs it: five keyword
  arguments, the source node-ID being \<^verbatim>\<open>None\<close> for an anonymous transfer.
\<close>

record transfer =
  tr_timestamp :: timestamp
  tr_priority :: priority
  tr_transfer_id :: nat
  fragmented_payload :: "bytes list"
  tr_source_node_id :: "nat option"

text \<open>
  \<^verbatim>\<open>TransferCRC\<close> is imported from \<^verbatim>\<open>._common\<close> and is a parameter of the model: the
  number of bytes of \<^verbatim>\<open>TransferCRC().value_as_bytes\<close> (the source's
  \<^verbatim>\<open>_CRC_SIZE_BYTES\<close>), and \<^verbatim>\<open>TransferCRC.new(*fragments).check_residue()\<close> as a
  predicate on the fragment list.
\<close>

record transfer_crc =
  crc_size_bytes :: nat
  check_residue :: "bytes list \<Rightarrow> bool"

datatype error =
    MULTIFRAME_MISSING_FRAMES
  | MULTIFRAME_INTEGRITY_ERROR
  | MULTIFRAME_EMPTY_FRAME
  | MULTIFRAME_EOT_MISPLACED
  | MULTIFRAME_EOT_INCONSISTENT
  | PAYLOAD_SIZE_EXCEEDS_LIMIT

text \<open>
  The instance attributes of \<^verbatim>\<open>TransferReassembler\<close>: \<^verbatim>\<open>_payloads\<close>, \<^verbatim>\<open>_max_index\<close>,
  \<^verbatim>\<open>_timestamp\<close> (the first frame's timestamp) and \<^verbatim>\<open>_transfer_id\<close> (the current
  transfer-ID), and the two constants of the configuration.
\<close>

record reassembler =
  source_node_id :: nat
  max_payload_size_bytes :: nat
  payloads :: "bytes list"
  max_index :: "nat option"
  first_timestamp :: timestamp
  current_transfer_id :: nat

text \<open>
  One invocation of the error callback: the error passed to it, and the attributes of the
  instance at the moment of the call (what a callback, or the debug log, can observe).
\<close>

type_synonym callback_call = "error \<times> reassembler"

datatype exn = AssertionError | ValueError

text \<open>
  What one call of \<^verbatim>\<open>process_frame\<close> does: it returns (or raises), it has invoked the
  callback some number of times, and it leaves the instance in a new state.
\<close>

record outcome =
  returned :: "exn + transfer option"
  on_error_calls :: "callback_call list"
  state_after :: reassembler

section \<open>The operations\<close>

definition init :: "int \<Rightarrow> int \<Rightarrow> exn + reassembler" where
  "init src_nid max_size =
     (if src_nid < 0 \<or> max_size < 0 then Inl ValueError
      else Inr \<lparr>source_node_id = nat src_nid, max_payload_size_bytes = nat max_size,
                payloads = [], max_index = None,
                first_timestamp = \<lparr>system_ns = 0, monotonic_ns = 0\<rparr>,
                current_transfer_id = 0\<rparr>)"

subsection \<open>Trimming the CRC\<close>

text \<open>
  The loop of \<^verbatim>\<open>_drop_crc\<close>, on the pair of its two variables. The source pops or
  shortens the last element of the list in place and returns the list.
\<close>

function drop_crc_loop :: "nat \<Rightarrow> bytes list \<Rightarrow> bytes list" where
  "drop_crc_loop remaining fragments =
     (if fragments \<noteq> [] \<and> remaining > 0 then
        (if length (last fragments) \<le> remaining
         then drop_crc_loop (remaining - length (last fragments)) (butlast fragments)
         else drop_crc_loop 0
                (fragments[length fragments - 1 :=
                    take (length (last fragments) - remaining) (last fragments)]))
      else fragments)"
  by pat_completeness auto
termination
  by (relation "measure (\<lambda>(remaining, fragments). length fragments + remaining)")
     (auto simp: neq_Nil_conv)

declare drop_crc_loop.simps [simp del]

definition drop_crc :: "transfer_crc \<Rightarrow> bytes list \<Rightarrow> bytes list" where
  "drop_crc C fragments = drop_crc_loop (crc_size_bytes C) fragments"

subsection \<open>The finalizer\<close>

definition package :: "timestamp \<Rightarrow> priority \<Rightarrow> nat \<Rightarrow> nat \<Rightarrow> bytes list \<Rightarrow> transfer" where
  "package ts prio tid src_nid fragments =
     \<lparr>tr_timestamp = ts, tr_priority = prio, tr_transfer_id = tid,
      fragmented_payload = fragments, tr_source_node_id = Some src_nid\<rparr>"

definition validate_and_finalize_transfer ::
  "transfer_crc \<Rightarrow> timestamp \<Rightarrow> priority \<Rightarrow> nat \<Rightarrow> bytes list \<Rightarrow> nat \<Rightarrow> exn + transfer option" where
  "validate_and_finalize_transfer C ts prio tid frame_payloads src_nid =
     (if frame_payloads = [] then Inl AssertionError
      else if length frame_payloads > 1 then
        (let size_ok = sum_list (map length frame_payloads) > crc_size_bytes C;
             crc_ok = check_residue C frame_payloads
         in if size_ok \<and> crc_ok
            then Inr (Some (package ts prio tid src_nid (drop_crc C frame_payloads)))
            else Inr None)
      else Inr (Some (package ts prio tid src_nid frame_payloads)))"

definition construct_anonymous_transfer :: "frame \<Rightarrow> transfer option" where
  "construct_anonymous_transfer fr =
     (if single_frame_transfer fr
      then Some \<lparr>tr_timestamp = timestamp fr, tr_priority = priority fr,
                 tr_transfer_id = transfer_id fr, fragmented_payload = [payload fr],
                 tr_source_node_id = None\<rparr>
      else None)"

subsection \<open>The state machine\<close>

text \<open>
  \<^verbatim>\<open>_restart\<close>: the callback is invoked first, on the attributes as they are; then the four
  attributes are assigned.
\<close>

definition restart ::
  "reassembler \<Rightarrow> timestamp \<Rightarrow> nat \<Rightarrow> error option \<Rightarrow> callback_call list \<times> reassembler" where
  "restart s ts tid err =
     ((case err of None \<Rightarrow> [] | Some e \<Rightarrow> [(e, s)]),
      s\<lparr>first_timestamp := ts, current_transfer_id := tid, max_index := None, payloads := []\<rparr>)"

definition pure_payload_size_bytes :: "transfer_crc \<Rightarrow> reassembler \<Rightarrow> int" where
  "pure_payload_size_bytes C s =
     (let size = int (sum_list (map length (payloads s)))
      in if length (payloads s) > 1 then size - int (crc_size_bytes C) else size)"

text \<open>The loop that appends empty fragments until the index exists.\<close>

function extend_payloads :: "bytes list \<Rightarrow> nat \<Rightarrow> bytes list" where
  "extend_payloads ps i = (if length ps \<le> i then extend_payloads (ps @ [[]]) i else ps)"
  by pat_completeness auto
termination
  by (relation "measure (\<lambda>(ps, i). Suc i - length ps)") auto

declare extend_payloads.simps [simp del]

definition accept_payload :: "reassembler \<Rightarrow> frame \<Rightarrow> reassembler" where
  "accept_payload s fr =
     s\<lparr>payloads := (extend_payloads (payloads s) (index fr))[index fr := payload fr]\<rparr>"

text \<open>
  The sections of \<^verbatim>\<open>process_frame\<close>, last first; each takes the callback invocations
  made so far and the current attributes. \<open>finalize\<close> is the part after the last check.
\<close>

definition finalize ::
  "transfer_crc \<Rightarrow> callback_call list \<Rightarrow> reassembler \<Rightarrow> frame \<Rightarrow> outcome" where
  "finalize C calls s fr =
     (case validate_and_finalize_transfer C (first_timestamp s) (priority fr) (transfer_id fr)
             (payloads s) (source_node_id s) of
        Inl e \<Rightarrow> \<lparr>returned = Inl e, on_error_calls = calls, state_after = s\<rparr>
      | Inr result \<Rightarrow>
          (let (cs, s') = restart s (timestamp fr) (transfer_id fr + 1)
                            (if result = None then Some MULTIFRAME_INTEGRITY_ERROR else None)
           in \<lparr>returned = Inr result, on_error_calls = calls @ cs, state_after = s'\<rparr>))"

definition check_complete ::
  "transfer_crc \<Rightarrow> callback_call list \<Rightarrow> reassembler \<Rightarrow> frame \<Rightarrow> outcome" where
  "check_complete C calls s fr =
     (case max_index s of
        None \<Rightarrow> \<lparr>returned = Inr None, on_error_calls = calls, state_after = s\<rparr>
      | Some m \<Rightarrow>
          if m > 0 \<and> \<not> list_all (\<lambda>p. p \<noteq> []) (payloads s)
          then \<lparr>returned = Inr None, on_error_calls = calls, state_after = s\<rparr>
          else if int m \<noteq> int (length (payloads s)) - 1
          then \<lparr>returned = Inl AssertionError, on_error_calls = calls, state_after = s\<rparr>
          else finalize C calls s fr)"

definition accept_and_check ::
  "transfer_crc \<Rightarrow> callback_call list \<Rightarrow> reassembler \<Rightarrow> frame \<Rightarrow> outcome" where
  "accept_and_check C calls s fr =
     (let s1 = accept_payload s fr
      in if pure_payload_size_bytes C s1 > int (max_payload_size_bytes s1)
         then (let (cs, s') = restart s1 (timestamp fr) (transfer_id fr + 1)
                                (Some PAYLOAD_SIZE_EXCEEDS_LIMIT)
               in \<lparr>returned = Inr None, on_error_calls = calls @ cs, state_after = s'\<rparr>)
         else check_complete C calls s1 fr)"

definition check_past_end ::
  "transfer_crc \<Rightarrow> callback_call list \<Rightarrow> reassembler \<Rightarrow> frame \<Rightarrow> outcome" where
  "check_past_end C calls s fr =
     (if max_index s \<noteq> None
         \<and> max (int (index fr)) (int (length (payloads s)) - 1) > int (the (max_index s))
      then (let (cs, s') = restart s (timestamp fr) (transfer_id fr + 1)
                             (Some MULTIFRAME_EOT_MISPLACED)
            in \<lparr>returned = Inr None, on_error_calls = calls @ cs, state_after = s'\<rparr>)
      else accept_and_check C calls s fr)"

definition determine_max_index ::
  "transfer_crc \<Rightarrow> callback_call list \<Rightarrow> reassembler \<Rightarrow> frame \<Rightarrow> outcome" where
  "determine_max_index C calls s fr =
     (if end_of_transfer fr then
        (if max_index s \<noteq> None \<and> max_index s \<noteq> Some (index fr)
         then (let (cs, s') = restart s (timestamp fr) (transfer_id fr + 1)
                                (Some MULTIFRAME_EOT_INCONSISTENT)
               in \<lparr>returned = Inr None, on_error_calls = calls @ cs, state_after = s'\<rparr>)
         else check_past_end C calls (s\<lparr>max_index := Some (index fr)\<rparr>) fr)
      else check_past_end C calls s fr)"

definition drop_non_matching ::
  "transfer_crc \<Rightarrow> callback_call list \<Rightarrow> reassembler \<Rightarrow> frame \<Rightarrow> outcome" where
  "drop_non_matching C calls s fr =
     (if transfer_id fr < current_transfer_id s
      then \<lparr>returned = Inr None, on_error_calls = calls, state_after = s\<rparr>
      else if transfer_id fr \<noteq> current_transfer_id s
      then \<lparr>returned = Inl AssertionError, on_error_calls = calls, state_after = s\<rparr>
      else determine_max_index C calls s fr)"

definition new_transfer_detected :: "reassembler \<Rightarrow> frame \<Rightarrow> rat \<Rightarrow> bool" where
  "new_transfer_detected s fr transfer_id_timeout \<longleftrightarrow>
     transfer_id fr > current_transfer_id s
     \<or> monotonic (timestamp fr) - monotonic (first_timestamp s) > transfer_id_timeout"

definition process_frame :: "transfer_crc \<Rightarrow> reassembler \<Rightarrow> frame \<Rightarrow> rat \<Rightarrow> outcome" where
  "process_frame C s fr transfer_id_timeout =
     (if \<not> (index fr = 0 \<and> end_of_transfer fr) \<and> payload fr = []
      then \<lparr>returned = Inr None, on_error_calls = [(MULTIFRAME_EMPTY_FRAME, s)], state_after = s\<rparr>
      else
        (let (calls, s1) =
               (if new_transfer_detected s fr transfer_id_timeout
                then restart s (timestamp fr) (transfer_id fr)
                       (if payloads s \<noteq> [] then Some MULTIFRAME_MISSING_FRAMES else None)
                else ([], s))
         in drop_non_matching C calls s1 fr))"

section \<open>Instances used in the examples\<close>

text \<open>
  An instance of the CRC parameter for concrete inputs, with a value of four bytes as the
  assertions of \<^verbatim>\<open>_unittest_drop_crc\<close> require: CRC-32C (Castagnoli, reflected), the
  register starting at all ones, one byte absorbed by eight shift steps. The value is
  appended least significant byte first; \<^verbatim>\<open>check_residue\<close> compares the register, after
  the payload and its CRC have been absorbed, with the residue \<open>0xB798B438\<close>. The theorems
  below hold for every CRC parameter; only the concrete examples use this one.
\<close>

definition crc32c_shift :: "int \<Rightarrow> int" where
  "crc32c_shift c = (if odd c then (c div 2) XOR 0x82F63B78 else c div 2)"

definition crc32c_add_byte :: "int \<Rightarrow> char \<Rightarrow> int" where
  "crc32c_add_byte c b = (crc32c_shift ^^ 8) (c XOR of_char b)"

definition crc32c_register :: "bytes list \<Rightarrow> int" where
  "crc32c_register fs = foldl crc32c_add_byte 0xFFFFFFFF (concat fs)"

definition crc32c :: transfer_crc where
  "crc32c = \<lparr>crc_size_bytes = 4, check_residue = (\<lambda>fs. crc32c_register fs = 0xB798B438)\<rparr>"

text \<open>
  The helpers of \<^verbatim>\<open>_unittest_transfer_reassembler\<close>: \<^verbatim>\<open>mk_ts\<close> (on whole seconds),
  \<^verbatim>\<open>mk_frame\<close> with the priority of the test, and the instance \<^verbatim>\<open>ta\<close> as constructed there
  (node 1234, at most 100 bytes of payload).
\<close>

definition mk_ts :: "int \<Rightarrow> timestamp" where
  "mk_ts monotonic_seconds =
     \<lparr>system_ns = monotonic_seconds * 1000000000 + 1000000000000,
      monotonic_ns = monotonic_seconds * 1000000000\<rparr>"

definition mk_frame :: "timestamp \<Rightarrow> nat \<Rightarrow> nat \<Rightarrow> bool \<Rightarrow> bytes \<Rightarrow> frame" where
  "mk_frame ts tid idx eot pl =
     \<lparr>timestamp = ts, priority = SLOW, transfer_id = tid, index = idx,
      end_of_transfer = eot, payload = pl\<rparr>"

definition ta :: reassembler where
  "ta = \<lparr>source_node_id = 1234, max_payload_size_bytes = 100, payloads = [], max_index = None,
          first_timestamp = \<lparr>system_ns = 0, monotonic_ns = 0\<rparr>, current_transfer_id = 0\<rparr>"

section \<open>Auxiliary definitions for the statements\<close>

text \<open>
  The attributes of the instance at the point where \<^verbatim>\<open>process_frame\<close> has stored the
  payload of the frame (the end of its section that accepts the payload), if the call gets
  that far: \<open>None\<close> if the frame is dropped or the transfer is aborted before.
\<close>

definition state_when_stored :: "reassembler \<Rightarrow> frame \<Rightarrow> rat \<Rightarrow> reassembler option" where
  "state_when_stored s fr transfer_id_timeout =
     (if \<not> (index fr = 0 \<and> end_of_transfer fr) \<and> payload fr = [] then None
      else
        (let s1 = (if new_transfer_detected s fr transfer_id_timeout
                   then snd (restart s (timestamp fr) (transfer_id fr) None) else s)
         in if transfer_id fr \<noteq> current_transfer_id s1 then None
            else if end_of_transfer fr \<and> max_index s1 \<noteq> None \<and> max_index s1 \<noteq> Some (index fr)
            then None
            else
              (let s2 = (if end_of_transfer fr then s1\<lparr>max_index := Some (index fr)\<rparr> else s1)
               in if max_index s2 \<noteq> None
                     \<and> max (int (index fr)) (int (length (payloads s2)) - 1)
                         > int (the (max_index s2))
                  then None
                  else Some (accept_payload s2 fr))))"

text \<open>
  The completion test in the words of the specification: the maximum index is set, and
  either it is zero, or every position from zero up to it holds a non-empty fragment.
\<close>

definition transfer_complete :: "reassembler \<Rightarrow> bool" where
  "transfer_complete s \<longleftrightarrow>
     (case max_index s of
        None \<Rightarrow> False
      | Some m \<Rightarrow> m = 0 \<or> (\<forall>i\<in>{0..m}. i < length (payloads s) \<and> payloads s ! i \<noteq> []))"

text \<open>
  The section that detects new transfers, on its own: the callback invocation it makes, and
  the attributes it leaves.
\<close>

definition missing_frames_calls :: "reassembler \<Rightarrow> frame \<Rightarrow> rat \<Rightarrow> callback_call list" where
  "missing_frames_calls s fr tmo =
     (if new_transfer_detected s fr tmo \<and> payloads s \<noteq> []
      then [(MULTIFRAME_MISSING_FRAMES, s)] else [])"

definition detect_new_transfer :: "reassembler \<Rightarrow> frame \<Rightarrow> rat \<Rightarrow> reassembler" where
  "detect_new_transfer s fr tmo =
     (if new_transfer_detected s fr tmo
      then s\<lparr>first_timestamp := timestamp fr, current_transfer_id := transfer_id fr,
             max_index := None, payloads := []\<rparr>
      else s)"

text \<open>
  Two more instances: one constructed with a limit of two bytes, and \<^verbatim>\<open>ta\<close> as the test
  leaves it when transfer 11 has been completed at second 1000.
\<close>

definition small_ta :: reassembler where
  "small_ta = ta\<lparr>max_payload_size_bytes := 2\<rparr>"

definition ta_after_11 :: reassembler where
  "ta_after_11 = ta\<lparr>first_timestamp := mk_ts 1000, current_transfer_id := 12\<rparr>"

text \<open>
  A sequence of calls on one instance, each starting from the attributes the previous call
  left; and the condition that in none of them the transfer-ID timeout has expired.
\<close>

fun process_frames :: "transfer_crc \<Rightarrow> reassembler \<Rightarrow> frame list \<Rightarrow> rat \<Rightarrow> outcome list" where
  "process_frames C s [] tmo = []"
| "process_frames C s (fr # frs) tmo =
     (let out = process_frame C s fr tmo
      in out # process_frames C (state_after out) frs tmo)"

fun never_timed_out :: "transfer_crc \<Rightarrow> reassembler \<Rightarrow> frame list \<Rightarrow> rat \<Rightarrow> bool" where
  "never_timed_out C s [] tmo = True"
| "never_timed_out C s (fr # frs) tmo =
     (monotonic (timestamp fr) - monotonic (first_timestamp s) \<le> tmo
      \<and> never_timed_out C (state_after (process_frame C s fr tmo)) frs tmo)"

text \<open>
  The assertions of \<^verbatim>\<open>_unittest_drop_crc\<close>, in their order, on a given CRC parameter.
\<close>

definition unittest_drop_crc :: "transfer_crc \<Rightarrow> bool" where
  "unittest_drop_crc C \<longleftrightarrow>
     drop_crc C [''0123456789''] = [''012345'']
   \<and> drop_crc C [''0123456789'', ''abcde''] = [''0123456789'', ''a'']
   \<and> drop_crc C [''0123456789'', ''abcd''] = [''0123456789'']
   \<and> drop_crc C [''0123456789'', ''abc''] = [''012345678'']
   \<and> drop_crc C [''0123456789'', ''ab''] = [''01234567'']
   \<and> drop_crc C [''0123456789'', ''a''] = [''0123456'']
   \<and> drop_crc C [''0123456789'', ''''] = [''012345'']
   \<and> drop_crc C [''0123456789'', '''', ''a'', ''b''] = [''01234567'']
   \<and> drop_crc C [''01'', '''', ''a'', ''b''] = []
   \<and> drop_crc C [''0'', '''', ''a'', ''b''] = []
   \<and> drop_crc C [''''] = []
   \<and> drop_crc C [] = []"


text \<open>
  Further instances: \<^verbatim>\<open>ta\<close> holding the second frame of transfer 10 since second 3000,
  \<^verbatim>\<open>ta\<close> holding the first frame of transfer 2, and a CRC parameter of two bytes.
\<close>

definition ta_mid_10 :: reassembler where
  "ta_mid_10 = ta\<lparr>payloads := [[], ''abc''], first_timestamp := mk_ts 3000,
                  current_transfer_id := 10\<rparr>"

definition ta_collecting_2 :: reassembler where
  "ta_collecting_2 = ta\<lparr>payloads := [''ab''], first_timestamp := mk_ts 1000,
                        current_transfer_id := 2\<rparr>"

definition two_byte_crc :: transfer_crc where
  "two_byte_crc = crc32c\<lparr>crc_size_bytes := 2\<rparr>"

text \<open>
  A well-formed multi-frame transfer, given as the list of its frames in the order of their
  indices: at least two frames, numbered from zero, with one transfer-ID and non-empty
  payloads, the last one alone carrying the end-of-transfer flag; the payloads pass the
  residue check and hold more than the CRC; the payload without the CRC is within the limit.
\<close>

definition well_formed_transfer :: "transfer_crc \<Rightarrow> nat \<Rightarrow> frame list \<Rightarrow> bool" where
  "well_formed_transfer C limit frs \<longleftrightarrow>
     2 \<le> length frs
   \<and> (\<forall>i<length frs. index (frs ! i) = i
          \<and> transfer_id (frs ! i) = transfer_id (frs ! 0)
          \<and> payload (frs ! i) \<noteq> []
          \<and> (end_of_transfer (frs ! i) \<longleftrightarrow> i = length frs - 1))
   \<and> check_residue C (map payload frs)
   \<and> crc_size_bytes C < length (concat (map payload frs))
   \<and> length (concat (map payload frs)) - crc_size_bytes C \<le> limit"

text \<open>
  The attributes while the frames with indices in \<open>I\<close> of such a transfer have been
  stored and nothing else: the fragment list reaches up to the highest index delivered and
  holds the payloads delivered, the empty fragment elsewhere; the maximum index is set exactly
  if the last frame is among them; \<open>ts0\<close> is the timestamp latched at the start.
\<close>

definition collecting ::
  "frame list \<Rightarrow> nat set \<Rightarrow> timestamp \<Rightarrow> reassembler \<Rightarrow> reassembler \<Rightarrow> bool" where
  "collecting frs I ts0 s st \<longleftrightarrow>
     source_node_id st = source_node_id s
   \<and> max_payload_size_bytes st = max_payload_size_bytes s
   \<and> current_transfer_id st = transfer_id (frs ! 0)
   \<and> first_timestamp st = ts0
   \<and> max_index st = (if length frs - 1 \<in> I then Some (length frs - 1) else None)
   \<and> I \<subseteq> {..<length frs}
   \<and> (\<forall>j\<in>I. j < length (payloads st))
   \<and> (payloads st \<noteq> [] \<longrightarrow> length (payloads st) - 1 \<in> I)
   \<and> (\<forall>j<length (payloads st). payloads st ! j = (if j \<in> I then payload (frs ! j) else []))"

text \<open>
  Frames for the examples: the payload \<^verbatim>\<open>abc\<close> with its CRC-32C (\<open>B7 3F 4B 36\<close>, least
  significant byte first) in two frames of transfer 2, split after \<^verbatim>\<open>ab\<close>, and split after
  the first byte of the CRC; and \<^verbatim>\<open>ta\<close> constructed with a limit of three bytes.
\<close>

definition ab_frame :: "timestamp \<Rightarrow> frame" where
  "ab_frame ts = mk_frame ts 2 0 False ''ab''"

definition c_crc_frame :: "timestamp \<Rightarrow> frame" where
  "c_crc_frame ts = mk_frame ts 2 1 True [CHR ''c'', CHR 0xB7, CHR 0x3F, CHR 0x4B, CHR 0x36]"

definition abc_crc1_frame :: frame where
  "abc_crc1_frame = mk_frame (mk_ts 1000) 2 0 False [CHR ''a'', CHR ''b'', CHR ''c'', CHR 0xB7]"

definition crc3_frame :: frame where
  "crc3_frame = mk_frame (mk_ts 1000) 2 1 True [CHR 0x3F, CHR 0x4B, CHR 0x36]"

definition ta_limit_3 :: reassembler where
  "ta_limit_3 = ta\<lparr>max_payload_size_bytes := 3\<rparr>"

text \<open>
  The instance \<^verbatim>\<open>ta\<close> as the emission of transfer 1 at second 1000 leaves it: nothing is
  held, the current transfer-ID is 2, and the timestamp is the one of the frame that
  completed transfer 1.
\<close>

definition ta_after_1 :: reassembler where
  "ta_after_1 = ta\<lparr>first_timestamp := mk_ts 1000, current_transfer_id := 2\<rparr>"

section \<open>Properties\<close>

subsection \<open>The CRC trimmer\<close>

lemma update_last:
  "fs \<noteq> [] \<Longrightarrow> fs[length fs - 1 := x] = butlast fs @ [x]"
  by (cases fs rule: rev_cases) simp_all

lemma concat_drop_crc_loop:
  "concat (drop_crc_loop r fs) = take (length (concat fs) - r) (concat fs)"
proof (induction r fs rule: drop_crc_loop.induct)
  case (1 r fs)
  show ?case
  proof (cases "fs \<noteq> [] \<and> r > 0")
    case False
    then show ?thesis by (auto simp: drop_crc_loop.simps [of r fs])
  next
    case True
    then have split: "fs = butlast fs @ [last fs]" by simp
    have cc: "concat fs = concat (butlast fs) @ last fs"
      by (subst split) simp
    show ?thesis
    proof (cases "length (last fs) \<le> r")
      case pop: True
      have "concat (drop_crc_loop r fs) = concat (drop_crc_loop (r - length (last fs)) (butlast fs))"
        using True pop by (simp add: drop_crc_loop.simps [of r fs])
      also have "\<dots> = take (length (concat (butlast fs)) - (r - length (last fs))) (concat (butlast fs))"
        using "1.IH"(1) True pop by simp
      also have "\<dots> = take (length (concat fs) - r) (concat fs)"
        using pop by (simp add: cc)
      finally show ?thesis .
    next
      case shrink: False
      have upd: "fs[length fs - 1 := take (length (last fs) - r) (last fs)]
                 = butlast fs @ [take (length (last fs) - r) (last fs)]"
        by (rule update_last) (use True in simp)
      have "concat (drop_crc_loop r fs) = concat (butlast fs @ [take (length (last fs) - r) (last fs)])"
        using True shrink by (simp add: drop_crc_loop.simps [of r fs] drop_crc_loop.simps [of 0] upd [simplified])
      also have "\<dots> = take (length (concat fs) - r) (concat fs)"
        using shrink by (simp add: cc)
      finally show ?thesis .
    qed
  qed
qed

lemma drop_crc_loop_short:
  "length (concat fs) < r \<Longrightarrow> drop_crc_loop r fs = []"
proof (induction r fs rule: drop_crc_loop.induct)
  case (1 r fs)
  show ?case
  proof (cases "fs = []")
    case True
    then show ?thesis by (simp add: drop_crc_loop.simps [of r])
  next
    case False
    then have split: "fs = butlast fs @ [last fs]" by simp
    have cc: "concat fs = concat (butlast fs) @ last fs"
      by (subst split) simp
    from "1.prems" cc have le: "length (last fs) \<le> r" and lt: "length (concat (butlast fs)) < r - length (last fs)"
      by simp_all
    from "1.prems" have pos: "0 < r" by simp
    have "drop_crc_loop r fs = drop_crc_loop (r - length (last fs)) (butlast fs)"
      using False pos le by (simp add: drop_crc_loop.simps [of r fs])
    also have "\<dots> = []"
      using "1.IH"(1) False pos le lt by simp
    finally show ?thesis .
  qed
qed

lemma drop_crc_loop_trailing_empty:
  "0 < r \<Longrightarrow> drop_crc_loop r (fs @ [[]]) = drop_crc_loop r fs"
  by (simp add: drop_crc_loop.simps [of r "fs @ [[]]"])

lemma drop_crc_loop_shape:
  "\<exists>k. k \<le> length fs \<and> (drop_crc_loop r fs = take k fs
       \<or> (k < length fs \<and> (\<exists>j. 0 < j \<and> j < length (fs ! k)
              \<and> drop_crc_loop r fs = take k fs @ [take j (fs ! k)])))"
proof (induction r fs rule: drop_crc_loop.induct)
  case (1 r fs)
  show ?case
  proof (cases "fs \<noteq> [] \<and> r > 0")
    case False
    then have "drop_crc_loop r fs = take (length fs) fs"
      by (auto simp: drop_crc_loop.simps [of r fs])
    then show ?thesis by blast
  next
    case True
    then have split: "fs = butlast fs @ [last fs]" by simp
    show ?thesis
    proof (cases "length (last fs) \<le> r")
      case pop: True
      have eq: "drop_crc_loop r fs = drop_crc_loop (r - length (last fs)) (butlast fs)"
        using True pop by (simp add: drop_crc_loop.simps [of r fs])
      from "1.IH"(1) True pop obtain k where k: "k \<le> length (butlast fs)"
        and alt: "drop_crc_loop (r - length (last fs)) (butlast fs) = take k (butlast fs)
          \<or> (k < length (butlast fs) \<and> (\<exists>j. 0 < j \<and> j < length (butlast fs ! k)
              \<and> drop_crc_loop (r - length (last fs)) (butlast fs) = take k (butlast fs) @ [take j (butlast fs ! k)]))"
        by blast
      have tk: "take k (butlast fs) = take k fs"
        using k by (metis split take_append length_butlast diff_is_0_eq' take_0 append_Nil2 take_all_iff order_refl)
      have nth: "k < length (butlast fs) \<Longrightarrow> butlast fs ! k = fs ! k"
        by (simp add: nth_butlast)
      from k have kl: "k \<le> length fs" by simp
      from alt show ?thesis
      proof
        assume "drop_crc_loop (r - length (last fs)) (butlast fs) = take k (butlast fs)"
        with eq tk kl show ?thesis by metis
      next
        assume a: "k < length (butlast fs) \<and> (\<exists>j. 0 < j \<and> j < length (butlast fs ! k)
              \<and> drop_crc_loop (r - length (last fs)) (butlast fs) = take k (butlast fs) @ [take j (butlast fs ! k)])"
        then obtain j where j: "0 < j" "j < length (fs ! k)"
          "drop_crc_loop r fs = take k fs @ [take j (fs ! k)]"
          using eq tk nth by auto
        from a have "k < length fs" by auto
        with j kl show ?thesis by blast
      qed
    next
      case shrink: False
      have upd: "fs[length fs - 1 := take (length (last fs) - r) (last fs)]
                 = butlast fs @ [take (length (last fs) - r) (last fs)]"
        by (rule update_last) (use True in simp)
      have eq: "drop_crc_loop r fs = butlast fs @ [take (length (last fs) - r) (last fs)]"
        using True shrink by (simp add: drop_crc_loop.simps [of r fs] drop_crc_loop.simps [of 0] upd [simplified])
      have b: "butlast fs = take (length fs - 1) fs" by (simp add: butlast_conv_take)
      have l: "last fs = fs ! (length fs - 1)" using True by (simp add: last_conv_nth)
      have "length fs - 1 < length fs" using True by simp
      moreover have "0 < length (last fs) - r" "length (last fs) - r < length (fs ! (length fs - 1))"
        using shrink True l by auto
      moreover have "drop_crc_loop r fs = take (length fs - 1) fs @ [take (length (last fs) - r) (fs ! (length fs - 1))]"
        using eq b l by simp
      ultimately show ?thesis by (metis less_imp_le_nat)
    qed
  qed
qed

lemmas crc32c_eval = crc32c_def crc32c_register_def crc32c_add_byte_def crc32c_shift_def

lemma drop_crc_loop_eval:
  "drop_crc_loop 0 fs = fs"
  "drop_crc_loop r [] = []"
  "drop_crc_loop (Suc r) (fs @ [f]) =
     (if length f \<le> Suc r then drop_crc_loop (Suc r - length f) fs
      else fs @ [take (length f - Suc r) f])"
  by (simp_all add: drop_crc_loop.simps [of 0] drop_crc_loop.simps [of _ "[]"]
        drop_crc_loop.simps [of "Suc r" "fs @ [f]"])

text \<open>
  Claim C7. For every list of fragments, \<^verbatim>\<open>_drop_crc\<close> keeps the fragments in their order:
  the result is a prefix of the list, possibly followed by a non-empty proper prefix of the
  next fragment. The concatenation of the result is the concatenation of the input without
  its last \<^verbatim>\<open>_CRC_SIZE_BYTES\<close> bytes. If the input is shorter than that in total, the
  result is the empty list. An empty last fragment is popped and leaves the number of bytes
  still to remove as it is.
\<close>

theorem drop_crc_removes_tail:
  "concat (drop_crc C fs) = take (length (concat fs) - crc_size_bytes C) (concat fs)
   \<and> (\<exists>k\<le>length fs. drop_crc C fs = take k fs
         \<or> (k < length fs \<and> (\<exists>j>0. j < length (fs ! k)
               \<and> drop_crc C fs = take k fs @ [take j (fs ! k)])))
   \<and> (length (concat fs) < crc_size_bytes C \<longrightarrow> drop_crc C fs = [])
   \<and> (0 < r \<longrightarrow> drop_crc_loop r (fs @ [[]]) = drop_crc_loop r fs)"
  unfolding drop_crc_def
  using concat_drop_crc_loop [of "crc_size_bytes C" fs]
    drop_crc_loop_shape [of fs "crc_size_bytes C"]
    drop_crc_loop_short [of fs "crc_size_bytes C"]
    drop_crc_loop_trailing_empty [of r fs]
  by blast

theorem drop_crc_removes_tail_witness:
  "length (concat [''0'', '''', ''a'', ''b'']) < crc_size_bytes crc32c
   \<and> drop_crc crc32c [''0'', '''', ''a'', ''b''] = []
   \<and> (0::nat) < 4
   \<and> drop_crc_loop 4 ([''0123456789'', ''a''] @ [[]]) = [''0123456'']"
proof -
  have a: "length (concat [''0'', '''', ''a'', ''b'']) < crc_size_bytes crc32c"
    by (simp add: crc32c_def)
  have b: "drop_crc_loop 4 [''0123456789'', ''a''] = [''0123456'']"
    using drop_crc_loop_eval(3) [of 3 "[''0123456789'']" "''a''"]
      drop_crc_loop_eval(3) [of 2 "[]" "''0123456789''"]
    by (simp add: eval_nat_numeral)
  from drop_crc_removes_tail [of crc32c "[''0'', '''', ''a'', ''b'']" 4] a
  have "drop_crc crc32c [''0'', '''', ''a'', ''b''] = []" by blast
  moreover from drop_crc_removes_tail [of crc32c "[''0123456789'', ''a'']" 4] b
  have "drop_crc_loop 4 ([''0123456789'', ''a''] @ [[]]) = [''0123456'']" by simp
  ultimately show ?thesis using a by simp
qed

subsection \<open>The finalizer\<close>

lemma abc_residue:
  "check_residue crc32c [''ab'', [CHR ''c'', CHR 0xB7, CHR 0x3F, CHR 0x4B, CHR 0x36]]"
  by (simp add: crc32c_eval eval_nat_numeral)

lemma abc_drop_crc:
  "drop_crc crc32c [''ab'', [CHR ''c'', CHR 0xB7, CHR 0x3F, CHR 0x4B, CHR 0x36]] = [''ab'', ''c'']"
  using drop_crc_loop_eval(3) [of 3 "[''ab'']" "[CHR ''c'', CHR 0xB7, CHR 0x3F, CHR 0x4B, CHR 0x36]"]
  by (simp add: drop_crc_def crc32c_def eval_nat_numeral)

text \<open>
  Claim C6. On a non-empty list, \<^verbatim>\<open>_validate_and_finalize_transfer\<close> returns a transfer that
  carries a single fragment as it is; with two or more fragments it returns a transfer whose
  fragments are the input with the CRC trimmed (the concatenation without its last
  \<^verbatim>\<open>_CRC_SIZE_BYTES\<close> bytes) exactly if the total length exceeds the CRC size and the
  residue check passes, and \<^verbatim>\<open>None\<close> otherwise.
\<close>

theorem finalizer_result:
  "frame_payloads \<noteq> [] \<Longrightarrow>
   validate_and_finalize_transfer C ts prio tid frame_payloads src_nid =
     (if length frame_payloads = 1
      then Inr (Some \<lparr>tr_timestamp = ts, tr_priority = prio, tr_transfer_id = tid,
                       fragmented_payload = frame_payloads, tr_source_node_id = Some src_nid\<rparr>)
      else if crc_size_bytes C < length (concat frame_payloads) \<and> check_residue C frame_payloads
      then Inr (Some \<lparr>tr_timestamp = ts, tr_priority = prio, tr_transfer_id = tid,
                       fragmented_payload = drop_crc C frame_payloads,
                       tr_source_node_id = Some src_nid\<rparr>)
      else Inr None)
   \<and> concat (drop_crc C frame_payloads)
       = take (length (concat frame_payloads) - crc_size_bytes C) (concat frame_payloads)"
proof -
  assume ne: "frame_payloads \<noteq> []"
  then have len: "length frame_payloads = 1 \<or> 1 < length frame_payloads"
    by (cases frame_payloads) auto
  have "validate_and_finalize_transfer C ts prio tid frame_payloads src_nid =
     (if length frame_payloads = 1
      then Inr (Some \<lparr>tr_timestamp = ts, tr_priority = prio, tr_transfer_id = tid,
                       fragmented_payload = frame_payloads, tr_source_node_id = Some src_nid\<rparr>)
      else if crc_size_bytes C < length (concat frame_payloads) \<and> check_residue C frame_payloads
      then Inr (Some \<lparr>tr_timestamp = ts, tr_priority = prio, tr_transfer_id = tid,
                       fragmented_payload = drop_crc C frame_payloads,
                       tr_source_node_id = Some src_nid\<rparr>)
      else Inr None)"
    using ne len
    by (auto simp: validate_and_finalize_transfer_def package_def length_concat Let_def)
  moreover have "concat (drop_crc C frame_payloads)
       = take (length (concat frame_payloads) - crc_size_bytes C) (concat frame_payloads)"
    by (simp add: drop_crc_def concat_drop_crc_loop)
  ultimately show ?thesis by simp
qed

theorem finalizer_result_witness:
  "[''ab'', [CHR ''c'', CHR 0xB7, CHR 0x3F, CHR 0x4B, CHR 0x36]] \<noteq> []
   \<and> validate_and_finalize_transfer crc32c (mk_ts 1000) FAST 888888888
         [''ab'', [CHR ''c'', CHR 0xB7, CHR 0x3F, CHR 0x4B, CHR 0x36]] 1234
       = Inr (Some \<lparr>tr_timestamp = mk_ts 1000, tr_priority = FAST, tr_transfer_id = 888888888,
                        fragmented_payload = [''ab'', ''c''], tr_source_node_id = Some 1234\<rparr>)"
  using finalizer_result [of "[''ab'', [CHR ''c'', CHR 0xB7, CHR 0x3F, CHR 0x4B, CHR 0x36]]"
      crc32c "mk_ts 1000" FAST 888888888 1234] abc_residue abc_drop_crc
  by (simp add: crc32c_def)

subsection \<open>Malformed empty frames\<close>

text \<open>
  Claim C8. For every state and every frame with an empty payload that is not a single-frame
  transfer, \<^verbatim>\<open>process_frame\<close> invokes the callback once, with
  \<^verbatim>\<open>MULTIFRAME_EMPTY_FRAME\<close>, returns \<^verbatim>\<open>None\<close> and leaves every attribute as it was.
\<close>

theorem empty_frame_rejected:
  "payload fr = [] \<Longrightarrow> \<not> single_frame_transfer fr \<Longrightarrow>
   process_frame C s fr tmo =
     \<lparr>returned = Inr None, on_error_calls = [(MULTIFRAME_EMPTY_FRAME, s)], state_after = s\<rparr>"
  by (simp add: process_frame_def single_frame_transfer_def)

theorem empty_frame_rejected_witness:
  "payload (mk_frame (mk_ts 1000) 9999999999 0 False []) = []
   \<and> \<not> single_frame_transfer (mk_frame (mk_ts 1000) 9999999999 0 False [])
   \<and> process_frame crc32c ta (mk_frame (mk_ts 1000) 9999999999 0 False []) 1 =
     \<lparr>returned = Inr None, on_error_calls = [(MULTIFRAME_EMPTY_FRAME, ta)], state_after = ta\<rparr>"
  using empty_frame_rejected [of "mk_frame (mk_ts 1000) 9999999999 0 False []" crc32c ta 1]
  by (simp add: mk_frame_def single_frame_transfer_def)

subsection \<open>The state machine, section by section\<close>

lemma store_length:
  "length (extend_payloads ps i) = max (length ps) (Suc i)"
  by (induction ps i rule: extend_payloads.induct)
     (subst extend_payloads.simps, auto)

lemma extend_payloads_eq:
  "extend_payloads ps i = ps @ replicate (Suc i - length ps) []"
proof (induction ps i rule: extend_payloads.induct)
  case (1 ps i)
  show ?case
  proof (cases "length ps \<le> i")
    case True
    then have "Suc i - length ps = Suc (i - length ps)" by simp
    with 1 True show ?thesis
      by (subst extend_payloads.simps) (simp add: replicate_app_Cons_same)
  next
    case False
    then show ?thesis by (subst extend_payloads.simps) simp
  qed
qed

lemma accept_payload_simps [simp]:
  "payloads (accept_payload s fr) = (extend_payloads (payloads s) (index fr))[index fr := payload fr]"
  "max_index (accept_payload s fr) = max_index s"
  "first_timestamp (accept_payload s fr) = first_timestamp s"
  "current_transfer_id (accept_payload s fr) = current_transfer_id s"
  "source_node_id (accept_payload s fr) = source_node_id s"
  "max_payload_size_bytes (accept_payload s fr) = max_payload_size_bytes s"
  by (simp_all add: accept_payload_def)

lemma stored_bounds:
  assumes "state_when_stored s fr tmo = Some s1"
  shows "payloads s1 \<noteq> []"
    and "max_index s1 = Some m \<Longrightarrow> length (payloads s1) \<le> Suc m"
    and "transfer_id fr = current_transfer_id s1"
    and "index fr < length (payloads s1)"
proof -
  from assms show "transfer_id fr = current_transfer_id s1"
    by (auto simp: state_when_stored_def Let_def restart_def split: if_splits)
  from assms show "index fr < length (payloads s1)"
    by (auto simp: state_when_stored_def Let_def restart_def store_length split: if_splits)
  then show "payloads s1 \<noteq> []" by auto
  assume "max_index s1 = Some m"
  with assms show "length (payloads s1) \<le> Suc m"
    by (auto simp: state_when_stored_def Let_def restart_def store_length split: if_splits)
qed

lemma process_frame_detect:
  "\<not> (\<not> (index fr = 0 \<and> end_of_transfer fr) \<and> payload fr = []) \<Longrightarrow>
   process_frame C s fr tmo =
     drop_non_matching C (missing_frames_calls s fr tmo) (detect_new_transfer s fr tmo) fr"
  by (auto simp: process_frame_def missing_frames_calls_def detect_new_transfer_def restart_def)

lemma state_when_stored_detect:
  "state_when_stored s fr tmo =
     (if \<not> (index fr = 0 \<and> end_of_transfer fr) \<and> payload fr = [] then None
      else
        (let s1 = detect_new_transfer s fr tmo
         in if transfer_id fr \<noteq> current_transfer_id s1 then None
            else if end_of_transfer fr \<and> max_index s1 \<noteq> None \<and> max_index s1 \<noteq> Some (index fr)
            then None
            else
              (let s2 = (if end_of_transfer fr then s1\<lparr>max_index := Some (index fr)\<rparr> else s1)
               in if max_index s2 \<noteq> None
                     \<and> max (int (index fr)) (int (length (payloads s2)) - 1)
                         > int (the (max_index s2))
                  then None
                  else Some (accept_payload s2 fr))))"
  by (simp add: state_when_stored_def detect_new_transfer_def restart_def)

lemma drop_non_matching_stored:
  "(case (if transfer_id fr \<noteq> current_transfer_id s1 then None
            else if end_of_transfer fr \<and> max_index s1 \<noteq> None \<and> max_index s1 \<noteq> Some (index fr)
            then None
            else
              (let s2 = (if end_of_transfer fr then s1\<lparr>max_index := Some (index fr)\<rparr> else s1)
               in if max_index s2 \<noteq> None
                     \<and> max (int (index fr)) (int (length (payloads s2)) - 1)
                         > int (the (max_index s2))
                  then None
                  else Some (accept_payload s2 fr)))
    of None \<Rightarrow> returned (drop_non_matching C calls s1 fr) \<noteq> Inr (Some tr)
     | Some s3 \<Rightarrow> drop_non_matching C calls s1 fr =
        (if pure_payload_size_bytes C s3 > int (max_payload_size_bytes s3)
         then \<lparr>returned = Inr None,
               on_error_calls = calls @ [(PAYLOAD_SIZE_EXCEEDS_LIMIT, s3)],
               state_after = s3\<lparr>first_timestamp := timestamp fr,
                             current_transfer_id := transfer_id fr + 1,
                             max_index := None, payloads := []\<rparr>\<rparr>
         else check_complete C calls s3 fr))"
  by (simp add: drop_non_matching_def determine_max_index_def check_past_end_def
        accept_and_check_def restart_def Let_def)

lemma process_frame_stored:
  "(case state_when_stored s fr tmo of
      None \<Rightarrow> returned (process_frame C s fr tmo) \<noteq> Inr (Some tr)
    | Some s3 \<Rightarrow> process_frame C s fr tmo =
        (if pure_payload_size_bytes C s3 > int (max_payload_size_bytes s3)
         then \<lparr>returned = Inr None,
               on_error_calls = missing_frames_calls s fr tmo @ [(PAYLOAD_SIZE_EXCEEDS_LIMIT, s3)],
               state_after = s3\<lparr>first_timestamp := timestamp fr,
                             current_transfer_id := transfer_id fr + 1,
                             max_index := None, payloads := []\<rparr>\<rparr>
         else check_complete C (missing_frames_calls s fr tmo) s3 fr))"
proof (cases "\<not> (index fr = 0 \<and> end_of_transfer fr) \<and> payload fr = []")
  case True
  then show ?thesis
    by (simp add: state_when_stored_def process_frame_def)
next
  case False
  then show ?thesis
    using drop_non_matching_stored [where fr = fr and ?s1.0 = "detect_new_transfer s fr tmo"
        and C = C and calls = "missing_frames_calls s fr tmo" and tr = tr]
    by (simp only: process_frame_detect [OF False] state_when_stored_detect Let_def if_False)
qed

lemma finalize_returned:
  "returned (finalize C calls s fr) =
     validate_and_finalize_transfer C (first_timestamp s) (priority fr) (transfer_id fr)
       (payloads s) (source_node_id s)"
  by (simp add: finalize_def restart_def split: sum.splits)

lemma finalize_state_after:
  "returned (finalize C calls s fr) = Inr r \<Longrightarrow>
   state_after (finalize C calls s fr) =
     s\<lparr>first_timestamp := timestamp fr, current_transfer_id := transfer_id fr + 1,
       max_index := None, payloads := []\<rparr>"
  by (simp add: finalize_def restart_def split: sum.splits)

lemma check_complete_returned:
  assumes ne: "payloads s1 \<noteq> []"
    and le: "\<And>m. max_index s1 = Some m \<Longrightarrow> length (payloads s1) \<le> Suc m"
  shows "returned (check_complete C calls s1 fr) = Inr (Some tr) \<longleftrightarrow>
           transfer_complete s1 \<and>
           validate_and_finalize_transfer C (first_timestamp s1) (priority fr) (transfer_id fr)
             (payloads s1) (source_node_id s1) = Inr (Some tr)"
proof (cases "max_index s1")
  case None
  then show ?thesis by (simp add: check_complete_def transfer_complete_def)
next
  case (Some m)
  from ne have pos: "Suc 0 \<le> length (payloads s1)" by (cases "payloads s1") simp_all
  from le [OF Some] have bound: "length (payloads s1) \<le> Suc m" .
  have compl: "transfer_complete s1 \<longleftrightarrow>
      \<not> (m > 0 \<and> \<not> list_all (\<lambda>p. p \<noteq> []) (payloads s1)) \<and> int m = int (length (payloads s1)) - 1"
  proof (cases "m = 0")
    case True
    with pos bound have "length (payloads s1) = Suc 0" by linarith
    with True show ?thesis by (simp add: transfer_complete_def Some)
  next
    case False
    show ?thesis
    proof
      assume "transfer_complete s1"
      with False have all: "\<forall>i\<in>{0..m}. i < length (payloads s1) \<and> payloads s1 ! i \<noteq> []"
        by (simp add: transfer_complete_def Some)
      then have "m < length (payloads s1)" by simp
      with bound have len: "length (payloads s1) = Suc m" by simp
      with all have "list_all (\<lambda>p. p \<noteq> []) (payloads s1)"
        by (simp add: list_all_length)
      with len show "\<not> (m > 0 \<and> \<not> list_all (\<lambda>p. p \<noteq> []) (payloads s1)) \<and> int m = int (length (payloads s1)) - 1"
        by simp
    next
      assume a: "\<not> (m > 0 \<and> \<not> list_all (\<lambda>p. p \<noteq> []) (payloads s1)) \<and> int m = int (length (payloads s1)) - 1"
      then have len: "length (payloads s1) = Suc m" by linarith
      from a False have "list_all (\<lambda>p. p \<noteq> []) (payloads s1)" by simp
      with len show "transfer_complete s1"
        by (simp add: transfer_complete_def Some list_all_length)
    qed
  qed
  show ?thesis
    unfolding compl
    by (simp add: check_complete_def Some finalize_returned)
qed

lemma finalizer_fields:
  "validate_and_finalize_transfer C ts prio tid fps src_nid = Inr (Some tr) \<Longrightarrow>
   tr_timestamp tr = ts \<and> tr_priority tr = prio \<and> tr_transfer_id tr = tid
   \<and> tr_source_node_id tr = Some src_nid"
  by (auto simp: validate_and_finalize_transfer_def package_def Let_def split: if_splits)

lemma transfer_returned_aux:
  "(returned (process_frame C s fr tmo) = Inr (Some tr) \<longleftrightarrow>
      (\<exists>s1. state_when_stored s fr tmo = Some s1
         \<and> pure_payload_size_bytes C s1 \<le> int (max_payload_size_bytes s1)
         \<and> transfer_complete s1
         \<and> validate_and_finalize_transfer C (first_timestamp s1) (priority fr)
               (current_transfer_id s1) (payloads s1) (source_node_id s1) = Inr (Some tr)))
   \<and> (returned (process_frame C s fr tmo) = Inr (Some tr) \<longrightarrow>
        (\<exists>s1. state_when_stored s fr tmo = Some s1
           \<and> tr_timestamp tr = first_timestamp s1
           \<and> tr_priority tr = priority fr
           \<and> tr_transfer_id tr = current_transfer_id s1
           \<and> state_after (process_frame C s fr tmo) =
               s1\<lparr>first_timestamp := timestamp fr, current_transfer_id := transfer_id fr + 1,
                  max_index := None, payloads := []\<rparr>))"
proof (cases "state_when_stored s fr tmo")
  case None
  with process_frame_stored [where s = s and fr = fr and tmo = tmo and C = C and tr = tr] show ?thesis by simp
next
  case (Some s1)
  note b = stored_bounds [OF Some]
  from process_frame_stored [where s = s and fr = fr and tmo = tmo and C = C and tr = tr] Some
  have pf: "process_frame C s fr tmo =
        (if pure_payload_size_bytes C s1 > int (max_payload_size_bytes s1)
         then \<lparr>returned = Inr None,
               on_error_calls = missing_frames_calls s fr tmo @ [(PAYLOAD_SIZE_EXCEEDS_LIMIT, s1)],
               state_after = s1\<lparr>first_timestamp := timestamp fr,
                             current_transfer_id := transfer_id fr + 1,
                             max_index := None, payloads := []\<rparr>\<rparr>
         else check_complete C (missing_frames_calls s fr tmo) s1 fr)"
    by simp
  have cc: "returned (check_complete C (missing_frames_calls s fr tmo) s1 fr) = Inr (Some tr) \<longleftrightarrow>
           transfer_complete s1 \<and>
           validate_and_finalize_transfer C (first_timestamp s1) (priority fr) (current_transfer_id s1)
             (payloads s1) (source_node_id s1) = Inr (Some tr)"
    using check_complete_returned [where ?s1.0 = s1 and C = C and calls = "missing_frames_calls s fr tmo" and fr = fr and tr = tr] b(1,2)
    by (simp add: b(3))
  have iff: "returned (process_frame C s fr tmo) = Inr (Some tr) \<longleftrightarrow>
      pure_payload_size_bytes C s1 \<le> int (max_payload_size_bytes s1)
         \<and> transfer_complete s1
         \<and> validate_and_finalize_transfer C (first_timestamp s1) (priority fr)
               (current_transfer_id s1) (payloads s1) (source_node_id s1) = Inr (Some tr)"
    using cc by (auto simp: pf)
  have after: "state_after (process_frame C s fr tmo) =
               s1\<lparr>first_timestamp := timestamp fr, current_transfer_id := transfer_id fr + 1,
                  max_index := None, payloads := []\<rparr>"
    if r: "returned (process_frame C s fr tmo) = Inr (Some tr)"
  proof -
    from r iff have le: "\<not> pure_payload_size_bytes C s1 > int (max_payload_size_bytes s1)"
      by simp
    from r have "returned (check_complete C (missing_frames_calls s fr tmo) s1 fr) = Inr (Some tr)"
      by (simp add: pf le)
    then show ?thesis
      by (auto simp: pf le check_complete_def finalize_state_after
            split: option.splits if_splits)
  qed
  from iff after finalizer_fields show ?thesis
    by (auto simp: Some)
qed

lemma stale_drop_aux:
  "transfer_id fr < current_transfer_id s \<Longrightarrow>
   \<not> (payload fr = [] \<and> \<not> single_frame_transfer fr) \<Longrightarrow>
   monotonic (timestamp fr) - monotonic (first_timestamp s) \<le> tmo \<Longrightarrow>
   process_frame C s fr tmo = \<lparr>returned = Inr None, on_error_calls = [], state_after = s\<rparr>"
  by (auto simp: process_frame_def drop_non_matching_def new_transfer_detected_def
        single_frame_transfer_def)

lemmas pf_eval = process_frame_def drop_non_matching_def determine_max_index_def
  check_past_end_def accept_and_check_def check_complete_def finalize_def restart_def
  new_transfer_detected_def pure_payload_size_bytes_def accept_payload_def
  validate_and_finalize_transfer_def package_def monotonic_def mk_ts_def mk_frame_def
  ta_def small_ta_def ta_after_11_def extend_payloads_eq Let_def state_when_stored_def
  transfer_complete_def single_frame_transfer_def

subsection \<open>Stale frames\<close>

text \<open>
  Claim C1, as amended. A frame whose transfer-ID is below the current one is dropped in
  silence (\<^verbatim>\<open>None\<close> returned, no callback, no attribute changed) provided that it is not an
  empty frame of a multi-frame transfer and that the transfer-ID timeout has not expired
  since the first timestamp. Without the two provisos the claim fails: the empty-frame check
  comes first and reports an error, and an expired timeout makes the frame start a new
  transfer, which it may even complete.
\<close>

theorem stale_frame_dropped:
  "transfer_id fr < current_transfer_id s \<Longrightarrow>
   \<not> (payload fr = [] \<and> \<not> single_frame_transfer fr) \<Longrightarrow>
   monotonic (timestamp fr) - monotonic (first_timestamp s) \<le> tmo \<Longrightarrow>
   process_frame C s fr tmo = \<lparr>returned = Inr None, on_error_calls = [], state_after = s\<rparr>"
  by (rule stale_drop_aux)

theorem stale_frame_dropped_witness:
  "transfer_id (mk_frame (mk_ts 1000) 10 1 False ''abc'') < current_transfer_id ta_after_11
   \<and> \<not> (payload (mk_frame (mk_ts 1000) 10 1 False ''abc'') = []
         \<and> \<not> single_frame_transfer (mk_frame (mk_ts 1000) 10 1 False ''abc''))
   \<and> monotonic (timestamp (mk_frame (mk_ts 1000) 10 1 False ''abc''))
         - monotonic (first_timestamp ta_after_11) \<le> 1
   \<and> process_frame crc32c ta_after_11 (mk_frame (mk_ts 1000) 10 1 False ''abc'') 1
       = \<lparr>returned = Inr None, on_error_calls = [], state_after = ta_after_11\<rparr>"
proof -
  let ?fr = "mk_frame (mk_ts 1000) 10 1 False ''abc''"
  have a: "transfer_id ?fr < current_transfer_id ta_after_11"
    by (simp add: mk_frame_def ta_after_11_def ta_def)
  have b: "\<not> (payload ?fr = [] \<and> \<not> single_frame_transfer ?fr)"
    by (simp add: mk_frame_def)
  have c: "monotonic (timestamp ?fr) - monotonic (first_timestamp ta_after_11) \<le> 1"
    by (simp add: mk_frame_def ta_after_11_def ta_def)
  from stale_frame_dropped [OF a b c, of crc32c] a b c show ?thesis by simp
qed

theorem stale_frame_counterexample:
  "transfer_id (mk_frame (mk_ts 2000) 0 0 True ''abc'') < current_transfer_id ta_after_11
   \<and> returned (process_frame crc32c ta_after_11 (mk_frame (mk_ts 2000) 0 0 True ''abc'') 1)
       = Inr (Some \<lparr>tr_timestamp = mk_ts 2000, tr_priority = SLOW, tr_transfer_id = 0,
                       fragmented_payload = [''abc''], tr_source_node_id = Some 1234\<rparr>)
   \<and> transfer_id (mk_frame (mk_ts 1000) 0 1 False []) < current_transfer_id ta_after_11
   \<and> on_error_calls (process_frame crc32c ta_after_11 (mk_frame (mk_ts 1000) 0 1 False []) 1)
       = [(MULTIFRAME_EMPTY_FRAME, ta_after_11)]"
  by (simp add: pf_eval)

subsection \<open>Completion\<close>

text \<open>
  Claim C2, as amended. \<^verbatim>\<open>process_frame\<close> returns a transfer exactly if the payload gets
  stored, the stored payloads do not exceed the size limit, the completion test of the
  specification holds of the attributes at that point, and the finalizer succeeds on them.
  The transfer then carries the first timestamp, the priority of the completing frame and
  the current transfer-ID, and the call leaves the state reset, with the transfer-ID of the
  frame plus one and the timestamp of the frame. The size limit is missing from the claim.
\<close>

theorem transfer_returned_iff:
  "(returned (process_frame C s fr tmo) = Inr (Some tr) \<longleftrightarrow>
      (\<exists>s1. state_when_stored s fr tmo = Some s1
         \<and> pure_payload_size_bytes C s1 \<le> int (max_payload_size_bytes s1)
         \<and> transfer_complete s1
         \<and> validate_and_finalize_transfer C (first_timestamp s1) (priority fr)
               (current_transfer_id s1) (payloads s1) (source_node_id s1) = Inr (Some tr)))
   \<and> (returned (process_frame C s fr tmo) = Inr (Some tr) \<longrightarrow>
        (\<exists>s1. state_when_stored s fr tmo = Some s1
           \<and> tr_timestamp tr = first_timestamp s1
           \<and> tr_priority tr = priority fr
           \<and> tr_transfer_id tr = current_transfer_id s1
           \<and> state_after (process_frame C s fr tmo) =
               s1\<lparr>first_timestamp := timestamp fr, current_transfer_id := transfer_id fr + 1,
                  max_index := None, payloads := []\<rparr>))"
  by (rule transfer_returned_aux)

theorem transfer_returned_iff_witness:
  "returned (process_frame crc32c ta (mk_frame (mk_ts 1000) 0 0 True ''abc'') 1)
     = Inr (Some \<lparr>tr_timestamp = mk_ts 1000, tr_priority = SLOW, tr_transfer_id = 0,
                     fragmented_payload = [''abc''], tr_source_node_id = Some 1234\<rparr>)
   \<and> state_when_stored ta (mk_frame (mk_ts 1000) 0 0 True ''abc'') 1
       = Some (ta\<lparr>first_timestamp := mk_ts 1000, max_index := Some 0, payloads := [''abc'']\<rparr>)
   \<and> transfer_complete
        (ta\<lparr>first_timestamp := mk_ts 1000, max_index := Some 0, payloads := [''abc'']\<rparr>)
   \<and> state_after (process_frame crc32c ta (mk_frame (mk_ts 1000) 0 0 True ''abc'') 1)
       = ta\<lparr>first_timestamp := mk_ts 1000, current_transfer_id := 1\<rparr>"
proof -
  let ?fr = "mk_frame (mk_ts 1000) 0 0 True ''abc''"
  let ?tr = "\<lparr>tr_timestamp = mk_ts 1000, tr_priority = SLOW, tr_transfer_id = 0,
               fragmented_payload = [''abc''], tr_source_node_id = Some 1234\<rparr>"
  let ?s1 = "ta\<lparr>first_timestamp := mk_ts 1000, max_index := Some 0, payloads := [''abc'']\<rparr>"
  have r: "returned (process_frame crc32c ta ?fr 1) = Inr (Some ?tr)"
    by (simp add: pf_eval)
  have st: "state_when_stored ta ?fr 1 = Some ?s1"
    by (simp add: pf_eval)
  note T = transfer_returned_iff [of crc32c ta ?fr 1 ?tr]
  from T [THEN conjunct1] r
  have "\<exists>s1. state_when_stored ta ?fr 1 = Some s1
         \<and> pure_payload_size_bytes crc32c s1 \<le> int (max_payload_size_bytes s1)
         \<and> transfer_complete s1
         \<and> validate_and_finalize_transfer crc32c (first_timestamp s1) (priority ?fr)
               (current_transfer_id s1) (payloads s1) (source_node_id s1) = Inr (Some ?tr)"
    by (rule iffD1)
  then have c: "transfer_complete ?s1"
    unfolding st by (elim exE conjE) simp
  from T [THEN conjunct2] r
  have "\<exists>s1. state_when_stored ta ?fr 1 = Some s1
           \<and> tr_timestamp ?tr = first_timestamp s1
           \<and> tr_priority ?tr = priority ?fr
           \<and> tr_transfer_id ?tr = current_transfer_id s1
           \<and> state_after (process_frame crc32c ta ?fr 1) =
               s1\<lparr>first_timestamp := timestamp ?fr, current_transfer_id := transfer_id ?fr + 1,
                  max_index := None, payloads := []\<rparr>"
    by (rule mp)
  then have "state_after (process_frame crc32c ta ?fr 1) =
               ?s1\<lparr>first_timestamp := timestamp ?fr, current_transfer_id := transfer_id ?fr + 1,
                  max_index := None, payloads := []\<rparr>"
    unfolding st by (elim exE conjE) simp
  then have a: "state_after (process_frame crc32c ta ?fr 1)
       = ta\<lparr>first_timestamp := mk_ts 1000, current_transfer_id := 1\<rparr>"
    by (simp add: mk_frame_def ta_def)
  from r st c a show ?thesis by (intro conjI)
qed

theorem transfer_returned_counterexample:
  "state_when_stored small_ta (mk_frame (mk_ts 1000) 1 0 True ''abc'') 1
     = Some \<lparr>source_node_id = 1234, max_payload_size_bytes = 2, payloads = [''abc''],
              max_index = Some 0, first_timestamp = mk_ts 1000, current_transfer_id = 1\<rparr>
   \<and> transfer_complete
        \<lparr>source_node_id = 1234, max_payload_size_bytes = 2, payloads = [''abc''],
         max_index = Some 0, first_timestamp = mk_ts 1000, current_transfer_id = 1\<rparr>
   \<and> validate_and_finalize_transfer crc32c (mk_ts 1000) SLOW 1 [''abc''] 1234
       = Inr (Some \<lparr>tr_timestamp = mk_ts 1000, tr_priority = SLOW, tr_transfer_id = 1,
                       fragmented_payload = [''abc''], tr_source_node_id = Some 1234\<rparr>)
   \<and> returned (process_frame crc32c small_ta (mk_frame (mk_ts 1000) 1 0 True ''abc'') 1)
       = Inr None"
  by (simp add: pf_eval)

subsection \<open>What a call leaves behind\<close>

lemma emitted_then_stale:
  assumes r: "returned (process_frame C s fr tmo) = Inr (Some tr)"
    and g: "transfer_id g = tr_transfer_id tr"
    and t: "monotonic (timestamp g) - monotonic (timestamp fr) \<le> tmo'"
    and m: "\<not> (payload g = [] \<and> \<not> single_frame_transfer g)"
  shows "process_frame C (state_after (process_frame C s fr tmo)) g tmo' =
     \<lparr>returned = Inr None, on_error_calls = [],
      state_after = state_after (process_frame C s fr tmo)\<rparr>"
proof -
  from transfer_returned_aux [where C = C and s = s and fr = fr and tmo = tmo and tr = tr] r
  obtain s1 where s1: "state_when_stored s fr tmo = Some s1"
      "tr_transfer_id tr = current_transfer_id s1"
      and after: "state_after (process_frame C s fr tmo) =
               s1\<lparr>first_timestamp := timestamp fr, current_transfer_id := transfer_id fr + 1,
                  max_index := None, payloads := []\<rparr>"
    by blast
  from stored_bounds(3) [OF s1(1)] s1(2) g have "transfer_id g = transfer_id fr" by simp
  then have a: "transfer_id g < current_transfer_id (state_after (process_frame C s fr tmo))"
    by (simp add: after)
  have b: "monotonic (timestamp g)
      - monotonic (first_timestamp (state_after (process_frame C s fr tmo))) \<le> tmo'"
    using t by (simp add: after)
  from stale_drop_aux [OF a m b] show ?thesis .
qed

lemma reset_accept_payload:
  "(accept_payload s fr)\<lparr>first_timestamp := ts, current_transfer_id := tid,
        max_index := None, payloads := []\<rparr>
   = s\<lparr>first_timestamp := ts, current_transfer_id := tid, max_index := None, payloads := []\<rparr>"
  by (simp add: accept_payload_def)

lemma finalize_after:
  "state_after (finalize C calls s fr) = s
   \<or> state_after (finalize C calls s fr) =
       s\<lparr>first_timestamp := timestamp fr, current_transfer_id := transfer_id fr + 1,
         max_index := None, payloads := []\<rparr>"
  by (simp add: finalize_def restart_def split: sum.splits)

lemma check_complete_after:
  "state_after (check_complete C calls s fr) = s
   \<or> state_after (check_complete C calls s fr) =
       s\<lparr>first_timestamp := timestamp fr, current_transfer_id := transfer_id fr + 1,
         max_index := None, payloads := []\<rparr>"
  using finalize_after [of C calls s fr]
  by (simp add: check_complete_def split: option.splits)

lemma accept_and_check_after:
  "state_after (accept_and_check C calls s fr) = accept_payload s fr
   \<or> state_after (accept_and_check C calls s fr) =
       s\<lparr>first_timestamp := timestamp fr, current_transfer_id := transfer_id fr + 1,
         max_index := None, payloads := []\<rparr>"
  using check_complete_after [of C calls "accept_payload s fr" fr]
  by (simp add: accept_and_check_def restart_def Let_def reset_accept_payload)

lemma check_past_end_after:
  "state_after (check_past_end C calls s fr) = accept_payload s fr
   \<or> state_after (check_past_end C calls s fr) =
       s\<lparr>first_timestamp := timestamp fr, current_transfer_id := transfer_id fr + 1,
         max_index := None, payloads := []\<rparr>"
  using accept_and_check_after [of C calls s fr]
  by (simp add: check_past_end_def restart_def)

lemma determine_max_index_after:
  "state_after (determine_max_index C calls s fr) = accept_payload s fr
   \<or> state_after (determine_max_index C calls s fr)
       = accept_payload (s\<lparr>max_index := Some (index fr)\<rparr>) fr
   \<or> state_after (determine_max_index C calls s fr) =
       s\<lparr>first_timestamp := timestamp fr, current_transfer_id := transfer_id fr + 1,
         max_index := None, payloads := []\<rparr>"
  using check_past_end_after [of C calls s fr]
    check_past_end_after [of C calls "s\<lparr>max_index := Some (index fr)\<rparr>" fr]
  by (auto simp: determine_max_index_def restart_def)

lemma drop_non_matching_after:
  "state_after (drop_non_matching C calls s fr) = s
   \<or> transfer_id fr = current_transfer_id s \<and>
      (state_after (drop_non_matching C calls s fr) = accept_payload s fr
       \<or> state_after (drop_non_matching C calls s fr)
           = accept_payload (s\<lparr>max_index := Some (index fr)\<rparr>) fr
       \<or> state_after (drop_non_matching C calls s fr) =
           s\<lparr>first_timestamp := timestamp fr, current_transfer_id := transfer_id fr + 1,
             max_index := None, payloads := []\<rparr>)"
  using determine_max_index_after [of C calls s fr]
  by (auto simp: drop_non_matching_def)

lemma drop_non_matching_tid:
  "current_transfer_id (state_after (drop_non_matching C calls s1 fr)) = current_transfer_id s1
   \<or> (transfer_id fr = current_transfer_id s1
       \<and> current_transfer_id (state_after (drop_non_matching C calls s1 fr)) = transfer_id fr + 1
       \<and> payloads (state_after (drop_non_matching C calls s1 fr)) = []
       \<and> max_index (state_after (drop_non_matching C calls s1 fr)) = None
       \<and> first_timestamp (state_after (drop_non_matching C calls s1 fr)) = timestamp fr)"
  using drop_non_matching_after [of C calls s1 fr]
  by (elim disjE conjE) simp_all

lemma process_frame_tid:
  "(current_transfer_id (state_after (process_frame C s fr tmo)) = current_transfer_id s
    \<or> (new_transfer_detected s fr tmo
        \<and> current_transfer_id (state_after (process_frame C s fr tmo)) = transfer_id fr)
    \<or> (current_transfer_id (state_after (process_frame C s fr tmo)) = transfer_id fr + 1
        \<and> payloads (state_after (process_frame C s fr tmo)) = []
        \<and> max_index (state_after (process_frame C s fr tmo)) = None
        \<and> first_timestamp (state_after (process_frame C s fr tmo)) = timestamp fr))
   \<and> (monotonic (timestamp fr) - monotonic (first_timestamp s) \<le> tmo \<longrightarrow>
        current_transfer_id s \<le> current_transfer_id (state_after (process_frame C s fr tmo)))"
proof (cases "\<not> (index fr = 0 \<and> end_of_transfer fr) \<and> payload fr = []")
  case True
  then show ?thesis by (simp add: process_frame_def)
next
  case False
  let ?s1 = "detect_new_transfer s fr tmo"
  have pf: "process_frame C s fr tmo = drop_non_matching C (missing_frames_calls s fr tmo) ?s1 fr"
    by (rule process_frame_detect [OF False])
  have s1: "current_transfer_id ?s1
      = (if new_transfer_detected s fr tmo then transfer_id fr else current_transfer_id s)"
    by (simp add: detect_new_transfer_def)
  have mono: "current_transfer_id s \<le> current_transfer_id ?s1"
    if "monotonic (timestamp fr) - monotonic (first_timestamp s) \<le> tmo"
    using that by (auto simp: detect_new_transfer_def new_transfer_detected_def)
  from drop_non_matching_tid [of C "missing_frames_calls s fr tmo" ?s1 fr]
  show ?thesis
  proof (elim disjE conjE)
    assume "current_transfer_id (state_after (drop_non_matching C (missing_frames_calls s fr tmo) ?s1 fr))
        = current_transfer_id ?s1"
    with s1 mono show ?thesis by (cases "new_transfer_detected s fr tmo") (auto simp: pf)
  next
    assume a: "transfer_id fr = current_transfer_id ?s1"
      "current_transfer_id (state_after (drop_non_matching C (missing_frames_calls s fr tmo) ?s1 fr))
        = transfer_id fr + 1"
      "payloads (state_after (drop_non_matching C (missing_frames_calls s fr tmo) ?s1 fr)) = []"
      "max_index (state_after (drop_non_matching C (missing_frames_calls s fr tmo) ?s1 fr)) = None"
      "first_timestamp (state_after (drop_non_matching C (missing_frames_calls s fr tmo) ?s1 fr))
        = timestamp fr"
    with mono show ?thesis by (auto simp: pf)
  qed
qed

lemma run_tid_sorted:
  "never_timed_out C s frs tmo \<Longrightarrow>
   sorted (current_transfer_id s
           # map (\<lambda>out. current_transfer_id (state_after out)) (process_frames C s frs tmo))"
proof (induction frs arbitrary: s)
  case Nil
  then show ?case by simp
next
  case (Cons fr frs)
  let ?s' = "state_after (process_frame C s fr tmo)"
  from Cons.prems have t: "monotonic (timestamp fr) - monotonic (first_timestamp s) \<le> tmo"
    and rest: "never_timed_out C ?s' frs tmo" by simp_all
  from process_frame_tid [of C s fr tmo] t
  have le: "current_transfer_id s \<le> current_transfer_id ?s'" by blast
  from Cons.IH [OF rest]
  have srt: "sorted (current_transfer_id ?s'
           # map (\<lambda>out. current_transfer_id (state_after out)) (process_frames C ?s' frs tmo))" .
  then have "\<forall>x\<in>set (current_transfer_id ?s'
           # map (\<lambda>out. current_transfer_id (state_after out)) (process_frames C ?s' frs tmo)).
           current_transfer_id s \<le> x"
    using le by (auto simp del: process_frames.simps)
  with srt show ?case by (simp add: Let_def)
qed

lemma accepted_payloads_nonempty [simp]:
  "(extend_payloads ps i)[i := p] \<noteq> []"
proof -
  have "0 < length ((extend_payloads ps i)[i := p])" by (simp add: store_length)
  then show ?thesis by (simp del: length_list_update)
qed

lemma extend_payloads_nonempty [simp]: "extend_payloads ps i \<noteq> []"
  using accepted_payloads_nonempty [of ps i undefined] by simp











lemma unittest_holds_for_4:
  assumes "crc_size_bytes C = 4"
  shows "unittest_drop_crc C"
  unfolding unittest_drop_crc_def drop_crc_def assms
  by (simp add: drop_crc_loop.simps)

lemma unittest_forces_4:
  assumes "unittest_drop_crc C"
  shows "crc_size_bytes C = 4"
proof -
  from assms have "drop_crc C [''0123456789''] = [''012345'']"
    by (simp add: unittest_drop_crc_def)
  then have "concat (drop_crc_loop (crc_size_bytes C) [''0123456789'']) = ''012345''"
    by (simp add: drop_crc_def)
  then have "length (concat (drop_crc_loop (crc_size_bytes C) [''0123456789''])) = 6"
    by simp
  then show ?thesis by (simp add: concat_drop_crc_loop)
qed

lemma emitted_trimmed:
  assumes r: "returned (process_frame C s fr tmo) = Inr (Some tr)"
  shows "\<exists>s1. state_when_stored s fr tmo = Some s1
           \<and> (1 < length (payloads s1) \<longrightarrow>
                fragmented_payload tr = drop_crc C (payloads s1)
              \<and> concat (fragmented_payload tr)
                  = take (length (concat (payloads s1)) - crc_size_bytes C) (concat (payloads s1))
              \<and> length (concat (fragmented_payload tr)) + crc_size_bytes C
                  = length (concat (payloads s1)))"
proof -
  from transfer_returned_aux [where C = C and s = s and fr = fr and tmo = tmo and tr = tr] r
  obtain s1 where s1: "state_when_stored s fr tmo = Some s1"
    and v: "validate_and_finalize_transfer C (first_timestamp s1) (priority fr)
               (current_transfer_id s1) (payloads s1) (source_node_id s1) = Inr (Some tr)"
    by blast
  have "fragmented_payload tr = drop_crc C (payloads s1)
      \<and> concat (fragmented_payload tr)
                  = take (length (concat (payloads s1)) - crc_size_bytes C) (concat (payloads s1))
      \<and> length (concat (fragmented_payload tr)) + crc_size_bytes C
                  = length (concat (payloads s1))"
    if multi: "1 < length (payloads s1)"
  proof -
    from v multi have f: "fragmented_payload tr = drop_crc C (payloads s1)"
      and big: "crc_size_bytes C < length (concat (payloads s1))"
      by (auto simp: validate_and_finalize_transfer_def package_def Let_def length_concat
            split: if_splits)
    have c: "concat (drop_crc C (payloads s1))
        = take (length (concat (payloads s1)) - crc_size_bytes C) (concat (payloads s1))"
      by (simp add: drop_crc_def concat_drop_crc_loop)
    from big have "length (take (length (concat (payloads s1)) - crc_size_bytes C)
                      (concat (payloads s1))) + crc_size_bytes C
        = length (concat (payloads s1))"
      by simp
    with f c show ?thesis by simp
  qed
  with s1 show ?thesis by blast
qed

lemma crc32c_size [simp]: "crc_size_bytes crc32c = 4"
  by (simp add: crc32c_def)

lemma ex_step1:
  "state_after (process_frame crc32c ta_after_11 (mk_frame (mk_ts 1000) 12 0 True ''abc'') 1)
     = ta\<lparr>first_timestamp := mk_ts 1000, current_transfer_id := 13\<rparr>"
  by (simp add: pf_eval)

lemma ex_step2:
  "state_after (process_frame crc32c (ta\<lparr>first_timestamp := mk_ts 1000, current_transfer_id := 13\<rparr>)
       (mk_frame (mk_ts 1000) 11 1 False ''abc'') 1)
     = ta\<lparr>first_timestamp := mk_ts 1000, current_transfer_id := 13\<rparr>"
  by (simp add: pf_eval)

subsection \<open>The current transfer-ID\<close>

text \<open>
  Claim C3, as amended. One call leaves the current transfer-ID as it was, or sets it to
  the transfer-ID of the frame when a new transfer is detected, or advances it to that
  transfer-ID plus one when the transfer is finalized or aborted (the state is then reset).
  It does not decrease in a call in which the transfer-ID timeout has not expired, and so it
  never decreases along a sequence of calls without an expired timeout. An expired timeout
  can lower it: the claim that it never decreases fails.
\<close>

theorem transfer_id_monotone:
  "(current_transfer_id (state_after (process_frame C s fr tmo)) = current_transfer_id s
    \<or> (new_transfer_detected s fr tmo
        \<and> current_transfer_id (state_after (process_frame C s fr tmo)) = transfer_id fr)
    \<or> (current_transfer_id (state_after (process_frame C s fr tmo)) = transfer_id fr + 1
        \<and> payloads (state_after (process_frame C s fr tmo)) = []
        \<and> max_index (state_after (process_frame C s fr tmo)) = None
        \<and> first_timestamp (state_after (process_frame C s fr tmo)) = timestamp fr))
   \<and> (monotonic (timestamp fr) - monotonic (first_timestamp s) \<le> tmo \<longrightarrow>
        current_transfer_id s \<le> current_transfer_id (state_after (process_frame C s fr tmo)))
   \<and> (never_timed_out C s frs tmo \<longrightarrow>
        sorted (current_transfer_id s
           # map (\<lambda>out. current_transfer_id (state_after out)) (process_frames C s frs tmo)))"
  using process_frame_tid [of C s fr tmo] run_tid_sorted [of C s frs tmo] by blast

theorem transfer_id_monotone_witness:
  "monotonic (timestamp (mk_frame (mk_ts 1000) 12 0 True ''abc''))
      - monotonic (first_timestamp ta_after_11) \<le> 1
   \<and> current_transfer_id ta_after_11
       \<le> current_transfer_id
            (state_after (process_frame crc32c ta_after_11 (mk_frame (mk_ts 1000) 12 0 True ''abc'') 1))
   \<and> never_timed_out crc32c ta_after_11
        [mk_frame (mk_ts 1000) 12 0 True ''abc'', mk_frame (mk_ts 1000) 11 1 False ''abc''] 1
   \<and> sorted (current_transfer_id ta_after_11
        # map (\<lambda>out. current_transfer_id (state_after out))
            (process_frames crc32c ta_after_11
               [mk_frame (mk_ts 1000) 12 0 True ''abc'', mk_frame (mk_ts 1000) 11 1 False ''abc''] 1))"
proof -
  let ?f1 = "mk_frame (mk_ts 1000) 12 0 True ''abc''"
  let ?f2 = "mk_frame (mk_ts 1000) 11 1 False ''abc''"
  have a: "monotonic (timestamp ?f1) - monotonic (first_timestamp ta_after_11) \<le> 1"
    by (simp add: mk_frame_def ta_after_11_def ta_def)
  have b: "never_timed_out crc32c ta_after_11 [?f1, ?f2] 1"
    using a by (simp add: ex_step1) (simp add: mk_frame_def)
  from transfer_id_monotone [of crc32c ta_after_11 ?f1 1 "[?f1, ?f2]"] a b
  show ?thesis by blast
qed

theorem transfer_id_counterexample:
  "current_transfer_id ta_mid_10 = 10
   \<and> current_transfer_id
       (state_after (process_frame crc32c ta_mid_10 (mk_frame (mk_ts 4000) 3 1 False ''def'') 1))
     = 3"
  by (simp add: pf_eval ta_mid_10_def)

subsection \<open>The error callback and the reset\<close>












subsection \<open>Frames of a transfer that has been emitted\<close>

text \<open>
  Only a frame that is a single-frame transfer or has a payload is ever stored, so every
  frame of a transfer that has been emitted is of this kind.
\<close>

lemma stored_frame_not_empty:
  "state_when_stored s g tmo = Some s1 \<Longrightarrow> \<not> (payload g = [] \<and> \<not> single_frame_transfer g)"
  by (auto simp: state_when_stored_def single_frame_transfer_def split: if_splits)

text \<open>
  Claim C10. After \<^verbatim>\<open>process_frame\<close> has emitted a transfer, completed by a frame with
  timestamp \<open>ts\<close>, a frame of that transfer delivered again (the same transfer-ID, a
  monotonic time within the timeout of \<open>ts\<close>; a single frame or a frame with a payload, as
  every frame of an emitted transfer is) returns \<^verbatim>\<open>None\<close>, invokes no callback and changes
  nothing: the reset has advanced the current transfer-ID beyond it.
\<close>

theorem duplicate_after_emission:
  "returned (process_frame C s fr tmo) = Inr (Some tr) \<Longrightarrow>
   transfer_id g = tr_transfer_id tr \<Longrightarrow>
   monotonic (timestamp g) - monotonic (timestamp fr) \<le> tmo' \<Longrightarrow>
   \<not> (payload g = [] \<and> \<not> single_frame_transfer g) \<Longrightarrow>
   process_frame C (state_after (process_frame C s fr tmo)) g tmo' =
     \<lparr>returned = Inr None, on_error_calls = [],
      state_after = state_after (process_frame C s fr tmo)\<rparr>"
  by (rule emitted_then_stale)

theorem duplicate_after_emission_witness:
  "returned (process_frame crc32c ta (mk_frame (mk_ts 1000) 0 0 True ''abc'') 1)
     = Inr (Some \<lparr>tr_timestamp = mk_ts 1000, tr_priority = SLOW, tr_transfer_id = 0,
                     fragmented_payload = [''abc''], tr_source_node_id = Some 1234\<rparr>)
   \<and> process_frame crc32c
        (state_after (process_frame crc32c ta (mk_frame (mk_ts 1000) 0 0 True ''abc'') 1))
        (mk_frame (mk_ts 1000) 0 0 True ''abc'') 1
     = \<lparr>returned = Inr None, on_error_calls = [],
        state_after = state_after (process_frame crc32c ta (mk_frame (mk_ts 1000) 0 0 True ''abc'') 1)\<rparr>"
proof -
  let ?fr = "mk_frame (mk_ts 1000) 0 0 True ''abc''"
  let ?tr = "\<lparr>tr_timestamp = mk_ts 1000, tr_priority = SLOW, tr_transfer_id = 0,
               fragmented_payload = [''abc''], tr_source_node_id = Some 1234\<rparr>"
  have r: "returned (process_frame crc32c ta ?fr 1) = Inr (Some ?tr)"
    by (simp add: pf_eval)
  have g: "transfer_id ?fr = tr_transfer_id ?tr" by (simp add: mk_frame_def)
  have t: "monotonic (timestamp ?fr) - monotonic (timestamp ?fr) \<le> 1" by simp
  have m: "\<not> (payload ?fr = [] \<and> \<not> single_frame_transfer ?fr)" by (simp add: mk_frame_def)
  from duplicate_after_emission [OF r g t m] r show ?thesis by (intro conjI)
qed

subsection \<open>The size of the CRC\<close>

text \<open>
  Claim C5, as amended. The CRC occupies \<^verbatim>\<open>_CRC_SIZE_BYTES\<close> bytes, and the assertions of
  \<^verbatim>\<open>_unittest_drop_crc\<close> hold exactly if that number is four (a CRC of 32 bits, not of
  16). For every emitted transfer of more than one fragment, the fragments are the stored
  ones without their last \<^verbatim>\<open>_CRC_SIZE_BYTES\<close> bytes.
\<close>

theorem crc_size_bytes_is_four:
  "(unittest_drop_crc C \<longleftrightarrow> crc_size_bytes C = 4)
   \<and> (returned (process_frame C s fr tmo) = Inr (Some tr) \<longrightarrow>
        (\<exists>s1. state_when_stored s fr tmo = Some s1
           \<and> (1 < length (payloads s1) \<longrightarrow>
                fragmented_payload tr = drop_crc C (payloads s1)
              \<and> concat (fragmented_payload tr)
                  = take (length (concat (payloads s1)) - crc_size_bytes C) (concat (payloads s1))
              \<and> length (concat (fragmented_payload tr)) + crc_size_bytes C
                  = length (concat (payloads s1)))))"
  using unittest_holds_for_4 [of C] unittest_forces_4 [of C]
    emitted_trimmed [of C s fr tmo tr]
  by blast

theorem crc_size_bytes_is_four_witness:
  "unittest_drop_crc crc32c
   \<and> returned (process_frame crc32c ta_collecting_2
        (mk_frame (mk_ts 1000) 2 1 True [CHR ''c'', CHR 0xB7, CHR 0x3F, CHR 0x4B, CHR 0x36]) 1)
     = Inr (Some \<lparr>tr_timestamp = mk_ts 1000, tr_priority = SLOW, tr_transfer_id = 2,
                     fragmented_payload = [''ab'', ''c''], tr_source_node_id = Some 1234\<rparr>)
   \<and> length (concat [''ab'', ''c'']) + crc_size_bytes crc32c
     = length (concat [''ab'', [CHR ''c'', CHR 0xB7, CHR 0x3F, CHR 0x4B, CHR 0x36]])"
proof -
  let ?fr = "mk_frame (mk_ts 1000) 2 1 True [CHR ''c'', CHR 0xB7, CHR 0x3F, CHR 0x4B, CHR 0x36]"
  let ?tr = "\<lparr>tr_timestamp = mk_ts 1000, tr_priority = SLOW, tr_transfer_id = 2,
               fragmented_payload = [''ab'', ''c''], tr_source_node_id = Some 1234\<rparr>"
  let ?s1 = "ta_collecting_2\<lparr>max_index := Some 1,
      payloads := [''ab'', [CHR ''c'', CHR 0xB7, CHR 0x3F, CHR 0x4B, CHR 0x36]]\<rparr>"
  note T = crc_size_bytes_is_four [of crc32c ta_collecting_2 ?fr 1 ?tr]
  have u: "unittest_drop_crc crc32c"
    using T [THEN conjunct1] by simp
  have r: "returned (process_frame crc32c ta_collecting_2 ?fr 1) = Inr (Some ?tr)"
    by (simp add: pf_eval ta_collecting_2_def abc_residue abc_drop_crc)
  have st: "state_when_stored ta_collecting_2 ?fr 1 = Some ?s1"
    by (simp add: pf_eval ta_collecting_2_def)
  from T [THEN conjunct2] r
  have "\<exists>s1. state_when_stored ta_collecting_2 ?fr 1 = Some s1
           \<and> (1 < length (payloads s1) \<longrightarrow>
                fragmented_payload ?tr = drop_crc crc32c (payloads s1)
              \<and> concat (fragmented_payload ?tr)
                  = take (length (concat (payloads s1)) - crc_size_bytes crc32c) (concat (payloads s1))
              \<and> length (concat (fragmented_payload ?tr)) + crc_size_bytes crc32c
                  = length (concat (payloads s1)))"
    by (rule mp)
  then have "1 < length (payloads ?s1) \<longrightarrow>
      length (concat (fragmented_payload ?tr)) + crc_size_bytes crc32c
                  = length (concat (payloads ?s1))"
    unfolding st by (elim exE conjE) (simp add: abc_drop_crc)
  then have l: "length (concat [''ab'', ''c'']) + crc_size_bytes crc32c
     = length (concat [''ab'', [CHR ''c'', CHR 0xB7, CHR 0x3F, CHR 0x4B, CHR 0x36]])"
    by simp
  from u r l show ?thesis by (intro conjI)
qed

theorem crc_size_two_counterexample:
  "crc_size_bytes two_byte_crc = 2
   \<and> drop_crc two_byte_crc [''0123456789''] = [''01234567'']
   \<and> \<not> unittest_drop_crc two_byte_crc"
proof -
  have a: "crc_size_bytes two_byte_crc = 2" by (simp add: two_byte_crc_def)
  have b: "drop_crc two_byte_crc [''0123456789''] = [''01234567'']"
    by (simp add: drop_crc_def a drop_crc_loop.simps)
  have "\<not> unittest_drop_crc two_byte_crc"
    by (simp add: unittest_drop_crc_def b)
  with a b show ?thesis by (intro conjI)
qed

subsection \<open>Delivering the frames of one transfer\<close>

lemma store_nth:
  assumes "j < max (length qs) (Suc i)"
  shows "((extend_payloads qs i)[i := p]) ! j
           = (if j = i then p else if j < length qs then qs ! j else [])"
proof -
  have len: "length (extend_payloads qs i) = max (length qs) (Suc i)"
    by (rule store_length)
  show ?thesis
  proof (cases "j = i")
    case True
    with len show ?thesis by simp
  next
    case False
    then have "((extend_payloads qs i)[i := p]) ! j = (extend_payloads qs i) ! j"
      by simp
    also have "\<dots> = (qs @ replicate (Suc i - length qs) []) ! j"
      by (simp add: extend_payloads_eq)
    also have "\<dots> = (if j < length qs then qs ! j else [])"
      using assms by (auto simp: nth_append)
    finally show ?thesis using False by simp
  qed
qed

lemma partial_sum_le:
  "length qs \<le> length ps \<Longrightarrow> (\<forall>j<length qs. qs ! j = ps ! j \<or> qs ! j = []) \<Longrightarrow>
   sum_list (map length qs) \<le> sum_list (map length (ps :: bytes list))"
proof (induction qs arbitrary: ps)
  case Nil
  then show ?case by simp
next
  case (Cons q qs)
  then obtain p ps' where ps: "ps = p # ps'" by (cases ps) auto
  from Cons.prems(2) [unfolded ps] have q: "q = p \<or> q = []"
    by (auto dest: spec [of _ 0])
  have "\<forall>j<length qs. qs ! j = ps' ! j \<or> qs ! j = []"
  proof (intro allI impI)
    fix j assume "j < length qs"
    then have "Suc j < length (q # qs)" by simp
    with Cons.prems(2) have "(q # qs) ! Suc j = ps ! Suc j \<or> (q # qs) ! Suc j = []" by blast
    then show "qs ! j = ps' ! j \<or> qs ! j = []" by (simp add: ps)
  qed
  moreover from Cons.prems(1) have "length qs \<le> length ps'" by (simp add: ps)
  ultimately have "sum_list (map length qs) \<le> sum_list (map length ps')"
    by (rule Cons.IH [rotated])
  with q show ?case by (auto simp: ps)
qed

lemma collectingI:
  assumes "source_node_id st = source_node_id s"
    and "max_payload_size_bytes st = max_payload_size_bytes s"
    and "current_transfer_id st = transfer_id (frs ! 0)"
    and "first_timestamp st = ts0"
    and "max_index st = (if length frs - 1 \<in> I then Some (length frs - 1) else None)"
    and "I \<subseteq> {..<length frs}"
    and "\<And>j. j \<in> I \<Longrightarrow> j < length (payloads st)"
    and "payloads st \<noteq> [] \<Longrightarrow> length (payloads st) - 1 \<in> I"
    and "\<And>j. j < length (payloads st) \<Longrightarrow>
           payloads st ! j = (if j \<in> I then payload (frs ! j) else [])"
  shows "collecting frs I ts0 s st"
  unfolding collecting_def using assms by blast

lemma drop_non_matching_accept:
  assumes "transfer_id fr = current_transfer_id s1"
    and "\<not> (end_of_transfer fr \<and> max_index s1 \<noteq> None \<and> max_index s1 \<noteq> Some (index fr))"
    and "s2 = (if end_of_transfer fr then s1\<lparr>max_index := Some (index fr)\<rparr> else s1)"
    and "\<not> (max_index s2 \<noteq> None
       \<and> max (int (index fr)) (int (length (payloads s2)) - 1) > int (the (max_index s2)))"
  shows "drop_non_matching C calls s1 fr = accept_and_check C calls s2 fr"
  using assms
  by (auto simp: drop_non_matching_def determine_max_index_def check_past_end_def)

lemma collect_step:
  assumes wf: "well_formed_transfer C (max_payload_size_bytes s) frs"
    and h3: "length (payload (frs ! 0)) \<le> max_payload_size_bytes s"
    and inv: "collecting frs I ts0 s st"
    and i: "i < length frs" and iI: "i \<notin> I"
  shows "(insert i I = {..<length frs} \<longrightarrow>
            returned (drop_non_matching C calls st (frs ! i))
              = Inr (Some \<lparr>tr_timestamp = ts0, tr_priority = priority (frs ! i),
                             tr_transfer_id = transfer_id (frs ! 0),
                             fragmented_payload = drop_crc C (map payload frs),
                             tr_source_node_id = Some (source_node_id s)\<rparr>))
       \<and> (insert i I \<noteq> {..<length frs} \<longrightarrow>
            returned (drop_non_matching C calls st (frs ! i)) = Inr None
          \<and> collecting frs (insert i I) ts0 s
               (state_after (drop_non_matching C calls st (frs ! i))))"
proof -
  let ?fr = "frs ! i" and ?k = "length frs" and ?qs = "payloads st"
  let ?ps = "map payload frs"
  from wf have k2: "2 \<le> ?k"
    and crc: "check_residue C ?ps" "crc_size_bytes C < length (concat ?ps)"
    and lim: "length (concat ?ps) - crc_size_bytes C \<le> max_payload_size_bytes s"
    and all_ne: "\<And>j. j < ?k \<Longrightarrow> payload (frs ! j) \<noteq> []"
    by (simp_all add: well_formed_transfer_def)
  from wf i have idx: "index ?fr = i" and tid: "transfer_id ?fr = transfer_id (frs ! 0)"
    and ne: "payload ?fr \<noteq> []" and eot: "end_of_transfer ?fr \<longleftrightarrow> i = ?k - 1"
    by (simp_all add: well_formed_transfer_def)
  from inv have c_src: "source_node_id st = source_node_id s"
    and c_max: "max_payload_size_bytes st = max_payload_size_bytes s"
    and c_tid: "current_transfer_id st = transfer_id (frs ! 0)"
    and c_ts: "first_timestamp st = ts0"
    and c_mi: "max_index st = (if ?k - 1 \<in> I then Some (?k - 1) else None)"
    and c_sub: "I \<subseteq> {..<?k}"
    and c_in: "\<And>j. j \<in> I \<Longrightarrow> j < length ?qs"
    and c_last: "?qs \<noteq> [] \<Longrightarrow> length ?qs - 1 \<in> I"
    and c_nth: "\<And>j. j < length ?qs \<Longrightarrow> ?qs ! j = (if j \<in> I then payload (frs ! j) else [])"
    by (simp_all add: collecting_def)
  have lenqs: "length ?qs \<le> ?k"
  proof (cases "?qs = []")
    case True
    then show ?thesis by simp
  next
    case False
    from c_last [OF False] c_sub have "length ?qs - 1 < ?k" by auto
    then show ?thesis by simp
  qed
  define st2 where "st2 = (if end_of_transfer ?fr then st\<lparr>max_index := Some (index ?fr)\<rparr> else st)"
  define st3 where "st3 = accept_payload st2 ?fr"
  let ?qs' = "(extend_payloads ?qs i)[i := payload ?fr]"
  have mi2: "max_index st2 = (if ?k - 1 \<in> insert i I then Some (?k - 1) else None)"
    using eot idx c_mi by (auto simp: st2_def)
  have pay2: "payloads st2 = ?qs"
    by (simp add: st2_def)
  have st3_simps: "payloads st3 = ?qs'" "max_index st3 = max_index st2"
    "first_timestamp st3 = ts0" "current_transfer_id st3 = transfer_id (frs ! 0)"
    "source_node_id st3 = source_node_id s" "max_payload_size_bytes st3 = max_payload_size_bytes s"
    using c_src c_max c_tid c_ts by (simp_all add: st3_def st2_def idx)
  have len': "length ?qs' = max (length ?qs) (Suc i)"
    by (simp add: store_length)
  have len'k: "length ?qs' \<le> ?k"
    using len' lenqs i by simp
  have nth': "?qs' ! j = (if j \<in> insert i I then payload (frs ! j) else [])"
    if "j < length ?qs'" for j
  proof -
    from that len' have j: "j < max (length ?qs) (Suc i)" by simp
    show ?thesis
    proof (cases "j = i")
      case True
      then show ?thesis using store_nth [OF j] by simp
    next
      case False
      show ?thesis
      proof (cases "j < length ?qs")
        case True
        with False c_nth [OF True] show ?thesis using store_nth [OF j] by simp
      next
        case nlt: False
        then have "j \<notin> I" using c_in by force
        with False nlt show ?thesis using store_nth [OF j] by simp
      qed
    qed
  qed
  text \<open>The frame is stored.\<close>
  have no_inconsistent:
    "\<not> (end_of_transfer ?fr \<and> max_index st \<noteq> None \<and> max_index st \<noteq> Some (index ?fr))"
    using eot c_mi iI by auto
  have no_past_end: "\<not> (max_index st2 \<noteq> None
       \<and> max (int (index ?fr)) (int (length (payloads st2)) - 1) > int (the (max_index st2)))"
    using mi2 idx i lenqs pay2 by auto
  have "drop_non_matching C calls st ?fr = accept_and_check C calls st2 ?fr"
    by (rule drop_non_matching_accept [OF _ no_inconsistent st2_def no_past_end])
       (simp add: tid c_tid)
  then have dnm: "drop_non_matching C calls st ?fr =
        (if pure_payload_size_bytes C st3 > int (max_payload_size_bytes st3)
         then \<lparr>returned = Inr None,
               on_error_calls = calls @ [(PAYLOAD_SIZE_EXCEEDS_LIMIT, st3)],
               state_after = st3\<lparr>first_timestamp := timestamp ?fr,
                             current_transfer_id := transfer_id ?fr + 1,
                             max_index := None, payloads := []\<rparr>\<rparr>
         else check_complete C calls st3 ?fr)"
    by (simp add: accept_and_check_def restart_def Let_def st3_def)
  text \<open>The size limit is kept.\<close>
  have size_ok: "\<not> pure_payload_size_bytes C st3 > int (max_payload_size_bytes st3)"
  proof (cases "1 < length ?qs'")
    case True
    have "sum_list (map length ?qs') \<le> sum_list (map length ?ps)"
    proof (rule partial_sum_le)
      show "length ?qs' \<le> length ?ps" using len'k by simp
      show "\<forall>j<length ?qs'. ?qs' ! j = ?ps ! j \<or> ?qs' ! j = []"
        using nth' len'k by auto
    qed
    then have "int (sum_list (map length ?qs')) - int (crc_size_bytes C)
        \<le> int (length (concat ?ps)) - int (crc_size_bytes C)"
      by (simp add: length_concat)
    also have "\<dots> \<le> int (max_payload_size_bytes s)"
      using lim crc(2) by linarith
    finally show ?thesis
      using True by (simp add: pure_payload_size_bytes_def st3_simps Let_def)
  next
    case False
    with len' have i0: "i = 0" and l1: "length ?qs' = 1" by auto
    have "?qs' ! 0 = payload (frs ! 0)" using nth' [of 0] l1 i0 by simp
    with l1 have "?qs' = [payload (frs ! 0)]"
      by (cases ?qs') auto
    then show ?thesis
      using h3 by (simp add: pure_payload_size_bytes_def st3_simps Let_def)
  qed
  have res: "drop_non_matching C calls st ?fr = check_complete C calls st3 ?fr"
    using dnm size_ok by simp
  have in3: "j < length ?qs'" if "j \<in> insert i I" for j
  proof -
    from that have "j = i \<or> j < length ?qs" using c_in by blast
    then show ?thesis unfolding len' by auto
  qed
  have coll3: "collecting frs (insert i I) ts0 s st3"
  proof (rule collectingI)
    show "source_node_id st3 = source_node_id s" by (rule st3_simps)
    show "max_payload_size_bytes st3 = max_payload_size_bytes s" by (rule st3_simps)
    show "current_transfer_id st3 = transfer_id (frs ! 0)" by (rule st3_simps)
    show "first_timestamp st3 = ts0" by (rule st3_simps)
    show "max_index st3 = (if ?k - 1 \<in> insert i I then Some (?k - 1) else None)"
      by (simp only: st3_simps mi2)
    show "insert i I \<subseteq> {..<?k}" using c_sub i by simp
    show "j < length (payloads st3)" if "j \<in> insert i I" for j
      using in3 [OF that] by (simp only: st3_simps)
    show "length (payloads st3) - 1 \<in> insert i I" if "payloads st3 \<noteq> []"
    proof (cases "length ?qs \<le> i")
      case True
      then have "length ?qs' - 1 = i" using len' by simp
      then show ?thesis by (simp only: st3_simps) simp
    next
      case False
      then have "length ?qs' = length ?qs" "?qs \<noteq> []" using len' by auto
      with c_last show ?thesis by (simp only: st3_simps) simp
    qed
    show "payloads st3 ! j = (if j \<in> insert i I then payload (frs ! j) else [])"
      if "j < length (payloads st3)" for j
      using that nth' [of j] by (simp only: st3_simps)
  qed
  have sub3: "insert i I \<subseteq> {..<?k}" using c_sub i by simp
  show ?thesis
  proof (cases "?k - 1 \<in> insert i I")
    case False
    have neq: "insert i I \<noteq> {..<?k}"
    proof
      assume "insert i I = {..<?k}"
      moreover have "?k - 1 \<in> {..<?k}" using k2 by simp
      ultimately show False using False by simp
    qed
    from False have mi3: "max_index st3 = None" by (simp only: st3_simps mi2 if_False)
    have "check_complete C calls st3 ?fr
        = \<lparr>returned = Inr None, on_error_calls = calls, state_after = st3\<rparr>"
      by (simp add: check_complete_def mi3)
    with neq coll3 show ?thesis by (simp add: res)
  next
    case True
    then have mi3: "max_index st3 = Some (?k - 1)" by (simp only: st3_simps mi2 if_True)
    from in3 [OF True] have "?k - 1 < length ?qs'" .
    with len'k have lenk: "length ?qs' = ?k" by linarith
    have all_iff: "list_all (\<lambda>p. p \<noteq> []) ?qs' \<longleftrightarrow> insert i I = {..<?k}"
    proof
      assume a: "list_all (\<lambda>p. p \<noteq> []) ?qs'"
      have "j \<in> insert i I" if "j < ?k" for j
      proof (rule ccontr)
        assume n: "j \<notin> insert i I"
        from that lenk have jl: "j < length ?qs'" by simp
        from nth' [OF jl] n have "?qs' ! j = []" by (simp only: if_False)
        moreover from a jl have "?qs' ! j \<noteq> []" unfolding list_all_length by blast
        ultimately show False by simp
      qed
      then have "{..<?k} \<subseteq> insert i I" by blast
      with sub3 show "insert i I = {..<?k}" by (rule equalityI)
    next
      assume e: "insert i I = {..<?k}"
      show "list_all (\<lambda>p. p \<noteq> []) ?qs'"
        unfolding list_all_length
      proof (intro allI impI)
        fix j assume jl: "j < length ?qs'"
        with lenk have jk: "j < ?k" by simp
        with e have "j \<in> insert i I" by blast
        with nth' [OF jl] have "?qs' ! j = payload (frs ! j)" by (simp only: if_True)
        with all_ne [OF jk] show "?qs' ! j \<noteq> []" by simp
      qed
    qed
    have kpos: "0 < ?k - 1" using k2 by simp
    show ?thesis
    proof (cases "insert i I = {..<?k}")
      case False
      with all_iff have "\<not> list_all (\<lambda>p. p \<noteq> []) ?qs'" by blast
      then have nall: "\<not> list_all (\<lambda>p. p \<noteq> []) (payloads st3)"
        unfolding st3_simps(1) .
      have "check_complete C calls st3 ?fr
          = \<lparr>returned = Inr None, on_error_calls = calls, state_after = st3\<rparr>"
        using nall kpos by (simp add: check_complete_def mi3)
      with False coll3 show ?thesis by (simp add: res)
    next
      case complete: True
      have qs_ps: "?qs' = ?ps"
      proof (rule nth_equalityI)
        show "length ?qs' = length ?ps" using lenk by simp
        fix j assume jl: "j < length ?qs'"
        with lenk have jk: "j < ?k" by simp
        with complete have "j \<in> insert i I" by blast
        with nth' [OF jl] have "?qs' ! j = payload (frs ! j)" by (simp only: if_True)
        with jk show "?qs' ! j = ?ps ! j" by simp
      qed
      from complete all_iff have "list_all (\<lambda>p. p \<noteq> []) ?qs'" by blast
      then have all: "list_all (\<lambda>p. p \<noteq> []) (payloads st3)"
        unfolding st3_simps(1) .
      have p3: "payloads st3 = ?ps" using qs_ps by (simp only: st3_simps)
      have l3: "int (?k - 1) = int (length (payloads st3)) - 1"
        using k2 by (simp add: p3)
      have "check_complete C calls st3 ?fr = finalize C calls st3 ?fr"
        using all l3 by (simp add: check_complete_def mi3)
      then have "returned (check_complete C calls st3 ?fr)
          = validate_and_finalize_transfer C ts0 (priority ?fr) (transfer_id ?fr) ?ps
              (source_node_id s)"
        by (simp add: finalize_returned p3 st3_simps(3,5))
      also have "\<dots> = Inr (Some \<lparr>tr_timestamp = ts0, tr_priority = priority ?fr,
                             tr_transfer_id = transfer_id (frs ! 0),
                             fragmented_payload = drop_crc C ?ps,
                             tr_source_node_id = Some (source_node_id s)\<rparr>)"
      proof -
        have "?ps \<noteq> []" "1 < length ?ps" using k2 by auto
        moreover have "crc_size_bytes C < sum_list (map length ?ps)"
          using crc(2) by (simp only: length_concat)
        ultimately show ?thesis
          using crc(1)
          by (simp add: validate_and_finalize_transfer_def package_def tid Let_def)
      qed
      finally show ?thesis using complete by (simp add: res)
    qed
  qed
qed

lemma process_frame_same_transfer:
  assumes "payload fr \<noteq> []"
    and "transfer_id fr = current_transfer_id st"
    and "monotonic (timestamp fr) - monotonic (first_timestamp st) \<le> tmo"
  shows "process_frame C st fr tmo = drop_non_matching C [] st fr"
proof -
  from assms(2,3) have n: "\<not> new_transfer_detected st fr tmo"
    by (simp add: new_transfer_detected_def)
  from assms(1) have "process_frame C st fr tmo
      = drop_non_matching C (missing_frames_calls st fr tmo) (detect_new_transfer st fr tmo) fr"
    by (intro process_frame_detect) simp
  with n show ?thesis by (simp add: missing_frames_calls_def detect_new_transfer_def)
qed

lemma collect_run:
  assumes wf: "well_formed_transfer C (max_payload_size_bytes s) frs"
    and h3: "length (payload (frs ! 0)) \<le> max_payload_size_bytes s"
  shows "collecting frs I ts0 s st \<Longrightarrow> distinct js \<Longrightarrow> js \<noteq> [] \<Longrightarrow>
    set js \<inter> I = {} \<Longrightarrow> I \<union> set js = {..<length frs} \<Longrightarrow>
    (\<forall>j\<in>set js. monotonic (timestamp (frs ! j)) - monotonic ts0 \<le> tmo) \<Longrightarrow>
    map returned (process_frames C st (map ((!) frs) js) tmo)
      = replicate (length js - 1) (Inr None)
        @ [Inr (Some \<lparr>tr_timestamp = ts0, tr_priority = priority (frs ! last js),
                       tr_transfer_id = transfer_id (frs ! 0),
                       fragmented_payload = drop_crc C (map payload frs),
                       tr_source_node_id = Some (source_node_id s)\<rparr>)]"
proof (induction js arbitrary: I st)
  case Nil
  then show ?case by simp
next
  case (Cons i js)
  let ?fr = "frs ! i"
  from Cons.prems(5) have ik: "i < length frs" by auto
  from Cons.prems(4) have iI: "i \<notin> I" by auto
  from wf ik have ne: "payload ?fr \<noteq> []" and tid: "transfer_id ?fr = transfer_id (frs ! 0)"
    by (simp_all add: well_formed_transfer_def)
  from Cons.prems(1) have ctid: "current_transfer_id st = transfer_id (frs ! 0)"
    and cts: "first_timestamp st = ts0"
    by (simp_all add: collecting_def)
  from Cons.prems(6) have t: "monotonic (timestamp ?fr) - monotonic (first_timestamp st) \<le> tmo"
    by (simp add: cts)
  have pf: "process_frame C st ?fr tmo = drop_non_matching C [] st ?fr"
    by (rule process_frame_same_transfer [OF ne _ t]) (simp add: tid ctid)
  note step = collect_step [OF wf h3 Cons.prems(1) ik iI, of "[]"]
  show ?case
  proof (cases "js = []")
    case True
    with Cons.prems(5) have "insert i I = {..<length frs}" by auto
    with step have "returned (drop_non_matching C [] st ?fr)
              = Inr (Some \<lparr>tr_timestamp = ts0, tr_priority = priority ?fr,
                             tr_transfer_id = transfer_id (frs ! 0),
                             fragmented_payload = drop_crc C (map payload frs),
                             tr_source_node_id = Some (source_node_id s)\<rparr>)"
      by blast
    with True show ?thesis by (simp add: pf Let_def)
  next
    case False
    then obtain j where j: "j \<in> set js" by (cases js) auto
    with Cons.prems(2) have "j \<noteq> i" by auto
    moreover from j Cons.prems(4) have "j \<notin> I" by auto
    moreover from j Cons.prems(5) have "j \<in> {..<length frs}" by auto
    ultimately have neq: "insert i I \<noteq> {..<length frs}" by blast
    let ?st' = "state_after (drop_non_matching C [] st ?fr)"
    from step neq have r: "returned (drop_non_matching C [] st ?fr) = Inr None"
      and c': "collecting frs (insert i I) ts0 s ?st'"
      by blast+
    have d': "distinct js" using Cons.prems(2) by simp
    have dis': "set js \<inter> insert i I = {}" using Cons.prems(2,4) by auto
    have un': "insert i I \<union> set js = {..<length frs}" using Cons.prems(5) by auto
    have t': "\<forall>j\<in>set js. monotonic (timestamp (frs ! j)) - monotonic ts0 \<le> tmo"
      using Cons.prems(6) by simp
    from Cons.IH [OF c' d' False dis' un' t']
    have IH: "map returned (process_frames C ?st' (map ((!) frs) js) tmo)
      = replicate (length js - 1) (Inr None)
        @ [Inr (Some \<lparr>tr_timestamp = ts0, tr_priority = priority (frs ! last js),
                       tr_transfer_id = transfer_id (frs ! 0),
                       fragmented_payload = drop_crc C (map payload frs),
                       tr_source_node_id = Some (source_node_id s)\<rparr>)]" .
    from False have len: "length (i # js) - 1 = Suc (length js - 1)"
      by (cases js) simp_all
    from False have lst: "last (i # js) = last js" by simp
    show ?thesis
      unfolding len lst
      by (simp add: pf Let_def r IH)
  qed
qed

lemma delivery_aux:
  assumes wf: "well_formed_transfer C (max_payload_size_bytes s) frs"
    and h3: "length (payload (frs ! 0)) \<le> max_payload_size_bytes s"
    and dist: "distinct frs'" and same: "set frs' = set frs"
    and ts0: "ts0 = (if new_transfer_detected s (hd frs') tmo then timestamp (hd frs')
                     else first_timestamp s)"
    and start: "new_transfer_detected s (hd frs') tmo
                \<or> current_transfer_id s = transfer_id (frs ! 0)
                   \<and> payloads s = [] \<and> max_index s = None"
    and timing: "\<forall>f\<in>set frs. monotonic (timestamp f) - monotonic ts0 \<le> tmo"
  shows "map returned (process_frames C s frs' tmo)
      = replicate (length frs - 1) (Inr None)
        @ [Inr (Some \<lparr>tr_timestamp = ts0, tr_priority = priority (last frs'),
                       tr_transfer_id = transfer_id (frs ! 0),
                       fragmented_payload = drop_crc C (map payload frs),
                       tr_source_node_id = Some (source_node_id s)\<rparr>)]"
proof -
  let ?k = "length frs"
  from wf have k2: "2 \<le> ?k" by (simp add: well_formed_transfer_def)
  from wf have idx_nth: "\<And>i. i < ?k \<Longrightarrow> index (frs ! i) = i"
    by (simp add: well_formed_transfer_def)
  have idx: "index f < ?k \<and> frs ! index f = f" if "f \<in> set frs" for f
  proof -
    from that obtain i where "i < ?k" "frs ! i = f" by (auto simp: in_set_conv_nth)
    with idx_nth [of i] show ?thesis by auto
  qed
  define js where "js = map index frs'"
  have mapjs: "map ((!) frs) js = frs'"
  proof -
    have "map ((!) frs \<circ> index) frs' = frs'"
      by (rule map_idI) (use idx same in simp)
    then show ?thesis by (simp add: js_def)
  qed
  have inj: "inj_on index (set frs')"
  proof (rule inj_onI)
    fix f g assume "f \<in> set frs'" "g \<in> set frs'" "index f = index g"
    with idx [of f] idx [of g] same show "f = g" by metis
  qed
  have djs: "distinct js" unfolding js_def using dist inj by (simp add: distinct_map)
  have sjs: "set js = {..<?k}"
  proof
    show "set js \<subseteq> {..<?k}" unfolding js_def using idx same by auto
    show "{..<?k} \<subseteq> set js"
    proof
      fix i assume "i \<in> {..<?k}"
      then have i: "i < ?k" by simp
      then have "frs ! i \<in> set frs'" using same by simp
      then have "index (frs ! i) \<in> set js" unfolding js_def by simp
      with idx_nth [OF i] show "i \<in> set js" by simp
    qed
  qed
  from djs have "length js = card (set js)" by (simp add: distinct_card)
  with sjs have ljs: "length js = ?k" by simp
  with k2 obtain i1 js' where js: "js = i1 # js'" by (cases js) auto
  with ljs k2 have ne': "js' \<noteq> []" by auto
  let ?f1 = "frs ! i1"
  from js sjs have i1: "i1 < ?k" by auto
  from js mapjs have frs': "frs' = ?f1 # map ((!) frs) js'" by auto
  have hd: "hd frs' = ?f1" by (simp add: frs')
  from wf i1 have ne1: "payload ?f1 \<noteq> []" and tid1: "transfer_id ?f1 = transfer_id (frs ! 0)"
    by (simp_all add: well_formed_transfer_def)
  let ?mc = "missing_frames_calls s ?f1 tmo"
  let ?st0 = "detect_new_transfer s ?f1 tmo"
  have pf: "process_frame C s ?f1 tmo = drop_non_matching C ?mc ?st0 ?f1"
    using ne1 by (intro process_frame_detect) simp
  have coll0: "collecting frs {} ts0 s ?st0"
  proof (cases "new_transfer_detected s ?f1 tmo")
    case True
    then show ?thesis
      by (intro collectingI) (simp_all add: detect_new_transfer_def tid1 ts0 hd)
  next
    case False
    with start hd have "current_transfer_id s = transfer_id (frs ! 0)"
      "payloads s = []" "max_index s = None"
      by simp_all
    with False show ?thesis
      by (intro collectingI) (simp_all add: detect_new_transfer_def ts0 hd)
  qed
  have n1: "insert i1 {} \<noteq> {..<?k}"
  proof
    assume "insert i1 {} = {..<?k}"
    then have "card (insert i1 {}) = card {..<?k}" by simp
    with k2 show False by simp
  qed
  let ?st1 = "state_after (drop_non_matching C ?mc ?st0 ?f1)"
  from collect_step [OF wf h3 coll0 i1, of ?mc] n1
  have r1: "returned (drop_non_matching C ?mc ?st0 ?f1) = Inr None"
    and coll1: "collecting frs (insert i1 {}) ts0 s ?st1"
    by auto
  have t': "\<forall>j\<in>set js'. monotonic (timestamp (frs ! j)) - monotonic ts0 \<le> tmo"
  proof
    fix j assume "j \<in> set js'"
    with js sjs have "j < ?k" by auto
    then have "frs ! j \<in> set frs" by simp
    with timing show "monotonic (timestamp (frs ! j)) - monotonic ts0 \<le> tmo"
      by blast
  qed
  have d': "distinct js'" using djs js by simp
  have dis': "set js' \<inter> insert i1 {} = {}" using djs js by auto
  have un': "insert i1 {} \<union> set js' = {..<?k}" using sjs js by auto
  from collect_run [OF wf h3 coll1 d' ne' dis' un' t']
  have rest: "map returned (process_frames C ?st1 (map ((!) frs) js') tmo)
      = replicate (length js' - 1) (Inr None)
        @ [Inr (Some \<lparr>tr_timestamp = ts0, tr_priority = priority (frs ! last js'),
                       tr_transfer_id = transfer_id (frs ! 0),
                       fragmented_payload = drop_crc C (map payload frs),
                       tr_source_node_id = Some (source_node_id s)\<rparr>)]" .
  from ljs js have len: "?k - 1 = Suc (length js' - 1)" using ne' by (cases js') auto
  have lst: "last frs' = frs ! last js'" using ne' by (simp add: frs' last_map)
  show ?thesis
    unfolding len lst
    by (subst frs') (simp add: pf r1 rest Let_def)
qed

lemma ab_c_well_formed_at:
  "well_formed_transfer crc32c 100 [ab_frame t1, c_crc_frame t2]"
  using abc_residue
  by (auto simp: well_formed_transfer_def ab_frame_def c_crc_frame_def mk_frame_def
        less_Suc_eq nth_Cons')

lemma in_order_first:
  "process_frame crc32c ta (ab_frame (mk_ts 1000)) 2
     = \<lparr>returned = Inr None, on_error_calls = [],
        state_after = ta\<lparr>payloads := [''ab''], first_timestamp := mk_ts 1000,
                         current_transfer_id := 2\<rparr>\<rparr>"
  by (simp add: pf_eval ab_frame_def)

lemma in_order_second:
  "returned (process_frame crc32c
       (ta\<lparr>payloads := [''ab''], first_timestamp := mk_ts 1000, current_transfer_id := 2\<rparr>)
       (c_crc_frame (mk_ts 1001)) 2)
     = Inr (Some \<lparr>tr_timestamp = mk_ts 1000, tr_priority = SLOW, tr_transfer_id = 2,
                    fragmented_payload = [''ab'', ''c''], tr_source_node_id = Some 1234\<rparr>)"
  by (simp add: pf_eval c_crc_frame_def abc_residue abc_drop_crc)

lemma reversed_first:
  "process_frame crc32c ta (c_crc_frame (mk_ts 1001)) 2
     = \<lparr>returned = Inr None, on_error_calls = [],
        state_after = ta\<lparr>payloads := [[], [CHR ''c'', CHR 0xB7, CHR 0x3F, CHR 0x4B, CHR 0x36]],
                         max_index := Some 1, first_timestamp := mk_ts 1001,
                         current_transfer_id := 2\<rparr>\<rparr>"
  by (simp add: pf_eval c_crc_frame_def)

lemma reversed_second:
  "returned (process_frame crc32c
       (ta\<lparr>payloads := [[], [CHR ''c'', CHR 0xB7, CHR 0x3F, CHR 0x4B, CHR 0x36]],
           max_index := Some 1, first_timestamp := mk_ts 1001, current_transfer_id := 2\<rparr>)
       (ab_frame (mk_ts 1000)) 2)
     = Inr (Some \<lparr>tr_timestamp = mk_ts 1001, tr_priority = SLOW, tr_transfer_id = 2,
                    fragmented_payload = [''ab'', ''c''], tr_source_node_id = Some 1234\<rparr>)"
  by (simp add: pf_eval ab_frame_def abc_residue abc_drop_crc)

lemma emission_leaves_ta_after_1:
  "process_frame crc32c ta (mk_frame (mk_ts 1000) 1 0 True ''abc'') 1
     = \<lparr>returned = Inr (Some \<lparr>tr_timestamp = mk_ts 1000, tr_priority = SLOW,
                                tr_transfer_id = 1, fragmented_payload = [''abc''],
                                tr_source_node_id = Some 1234\<rparr>),
        on_error_calls = [], state_after = ta_after_1\<rparr>"
  by (simp add: pf_eval ta_after_1_def)

lemma after_1_in_order_first:
  "process_frame crc32c ta_after_1 (ab_frame (mk_ts 1001)) 1
     = \<lparr>returned = Inr None, on_error_calls = [],
        state_after = ta\<lparr>payloads := [''ab''], first_timestamp := mk_ts 1000,
                         current_transfer_id := 2\<rparr>\<rparr>"
  by (simp add: pf_eval ab_frame_def ta_after_1_def)

lemma after_1_in_order_second:
  "process_frame crc32c
       (ta\<lparr>payloads := [''ab''], first_timestamp := mk_ts 1000, current_transfer_id := 2\<rparr>)
       (c_crc_frame (mk_ts 1002)) 1
     = \<lparr>returned = Inr None,
        on_error_calls = [(MULTIFRAME_MISSING_FRAMES,
           ta\<lparr>payloads := [''ab''], first_timestamp := mk_ts 1000, current_transfer_id := 2\<rparr>)],
        state_after = ta\<lparr>payloads := [[], [CHR ''c'', CHR 0xB7, CHR 0x3F, CHR 0x4B, CHR 0x36]],
                         max_index := Some 1, first_timestamp := mk_ts 1002,
                         current_transfer_id := 2\<rparr>\<rparr>"
  by (simp add: pf_eval c_crc_frame_def)

lemma after_1_reversed_first:
  "process_frame crc32c ta_after_1 (c_crc_frame (mk_ts 1002)) 1
     = \<lparr>returned = Inr None, on_error_calls = [],
        state_after = ta\<lparr>payloads := [[], [CHR ''c'', CHR 0xB7, CHR 0x3F, CHR 0x4B, CHR 0x36]],
                         max_index := Some 1, first_timestamp := mk_ts 1002,
                         current_transfer_id := 2\<rparr>\<rparr>"
  by (simp add: pf_eval c_crc_frame_def ta_after_1_def)

lemma after_1_reversed_second:
  "returned (process_frame crc32c
       (ta\<lparr>payloads := [[], [CHR ''c'', CHR 0xB7, CHR 0x3F, CHR 0x4B, CHR 0x36]],
           max_index := Some 1, first_timestamp := mk_ts 1002, current_transfer_id := 2\<rparr>)
       (ab_frame (mk_ts 1001)) 1)
     = Inr (Some \<lparr>tr_timestamp = mk_ts 1002, tr_priority = SLOW, tr_transfer_id = 2,
                    fragmented_payload = [''ab'', ''c''], tr_source_node_id = Some 1234\<rparr>)"
  by (simp add: pf_eval ab_frame_def abc_residue abc_drop_crc)

lemma after_1_same_time_second:
  "returned (process_frame crc32c
       (ta\<lparr>payloads := [''ab''], first_timestamp := mk_ts 1000, current_transfer_id := 2\<rparr>)
       (c_crc_frame (mk_ts 1001)) 1)
     = Inr (Some \<lparr>tr_timestamp = mk_ts 1000, tr_priority = SLOW, tr_transfer_id = 2,
                    fragmented_payload = [''ab'', ''c''], tr_source_node_id = Some 1234\<rparr>)"
  by (simp add: pf_eval c_crc_frame_def abc_residue abc_drop_crc)

text \<open>
  Claim C4, as amended. Let the first fragment of a well-formed multi-frame transfer alone be
  within the size limit, and let its frames be delivered in any order in which the frame
  delivered first either starts a new transfer (its transfer-ID is above the current one, or
  the transfer-ID timeout has expired since the timestamp held) or finds the instance with
  this transfer-ID and with neither a fragment nor a maximum index, as an emission or an
  abort of the transfer before leaves it. Let \<open>ts0\<close> be the timestamp the instance holds
  when that frame has passed the detection of new transfers, and let no frame be later than
  the transfer-ID timeout after \<open>ts0\<close>. Then every call but the last returns \<^verbatim>\<open>None\<close> and
  the last call returns the transfer, with the same transfer-ID, fragments (the payloads in
  the order of the indices, the CRC removed) and source node-ID for every such order. Its
  priority is that of the frame delivered last, and its timestamp is \<open>ts0\<close>: that of the
  frame delivered first, if that frame starts a new transfer. As stated, with the timestamp
  among the fields that do not depend on the order, the claim fails.
\<close>

theorem permutation_invariance:
  assumes "well_formed_transfer C (max_payload_size_bytes s) frs"
    and "length (payload (frs ! 0)) \<le> max_payload_size_bytes s"
    and "distinct frs'" and "set frs' = set frs"
    and "ts0 = (if new_transfer_detected s (hd frs') tmo then timestamp (hd frs')
                else first_timestamp s)"
    and "new_transfer_detected s (hd frs') tmo
         \<or> current_transfer_id s = transfer_id (frs ! 0)
            \<and> payloads s = [] \<and> max_index s = None"
    and "\<forall>f\<in>set frs. monotonic (timestamp f) - monotonic ts0 \<le> tmo"
  shows "map returned (process_frames C s frs' tmo)
      = replicate (length frs - 1) (Inr None)
        @ [Inr (Some \<lparr>tr_timestamp = ts0, tr_priority = priority (last frs'),
                       tr_transfer_id = transfer_id (frs ! 0),
                       fragmented_payload = drop_crc C (map payload frs),
                       tr_source_node_id = Some (source_node_id s)\<rparr>)]"
  using assms by (rule delivery_aux)

theorem permutation_invariance_witness:
  "new_transfer_detected ta (hd [c_crc_frame (mk_ts 1000), ab_frame (mk_ts 1000)]) 1
   \<and> map returned (process_frames crc32c ta
         [c_crc_frame (mk_ts 1000), ab_frame (mk_ts 1000)] 1)
     = [Inr None,
        Inr (Some \<lparr>tr_timestamp = mk_ts 1000, tr_priority = SLOW, tr_transfer_id = 2,
                    fragmented_payload = [''ab'', ''c''], tr_source_node_id = Some 1234\<rparr>)]
   \<and> \<not> new_transfer_detected ta_after_1
         (hd [c_crc_frame (mk_ts 1001), ab_frame (mk_ts 1001)]) 1
   \<and> current_transfer_id ta_after_1
       = transfer_id ([ab_frame (mk_ts 1001), c_crc_frame (mk_ts 1001)] ! 0)
   \<and> payloads ta_after_1 = [] \<and> max_index ta_after_1 = None
   \<and> map returned (process_frames crc32c ta_after_1
         [c_crc_frame (mk_ts 1001), ab_frame (mk_ts 1001)] 1)
     = [Inr None,
        Inr (Some \<lparr>tr_timestamp = mk_ts 1000, tr_priority = SLOW, tr_transfer_id = 2,
                    fragmented_payload = [''ab'', ''c''], tr_source_node_id = Some 1234\<rparr>)]"
proof -
  let ?frs = "[ab_frame (mk_ts 1000), c_crc_frame (mk_ts 1000)]"
  let ?frs' = "[c_crc_frame (mk_ts 1000), ab_frame (mk_ts 1000)]"
  let ?grs = "[ab_frame (mk_ts 1001), c_crc_frame (mk_ts 1001)]"
  let ?grs' = "[c_crc_frame (mk_ts 1001), ab_frame (mk_ts 1001)]"
  have a: "well_formed_transfer crc32c (max_payload_size_bytes ta) ?frs"
    using ab_c_well_formed_at by (simp add: ta_def)
  have b: "length (payload (?frs ! 0)) \<le> max_payload_size_bytes ta"
    by (simp add: ab_frame_def mk_frame_def ta_def)
  have c: "distinct ?frs'"
    by (simp add: ab_frame_def c_crc_frame_def mk_frame_def)
  have d: "set ?frs' = set ?frs" by auto
  have n: "new_transfer_detected ta (hd ?frs') 1"
    by (simp add: new_transfer_detected_def c_crc_frame_def mk_frame_def ta_def)
  have e: "mk_ts 1000
      = (if new_transfer_detected ta (hd ?frs') 1 then timestamp (hd ?frs')
         else first_timestamp ta)"
    using n by (simp add: c_crc_frame_def mk_frame_def)
  have f: "\<forall>f\<in>set ?frs. monotonic (timestamp f) - monotonic (mk_ts 1000) \<le> 1"
    by (simp add: ab_frame_def c_crc_frame_def mk_frame_def)
  from permutation_invariance [OF a b c d e disjI1 [OF n] f]
  have r: "map returned (process_frames crc32c ta ?frs' 1)
     = [Inr None,
        Inr (Some \<lparr>tr_timestamp = mk_ts 1000, tr_priority = SLOW, tr_transfer_id = 2,
                    fragmented_payload = [''ab'', ''c''], tr_source_node_id = Some 1234\<rparr>)]"
    using abc_drop_crc
    by (simp add: ab_frame_def c_crc_frame_def mk_frame_def ta_def)
  have a': "well_formed_transfer crc32c (max_payload_size_bytes ta_after_1) ?grs"
    using ab_c_well_formed_at by (simp add: ta_after_1_def ta_def)
  have b': "length (payload (?grs ! 0)) \<le> max_payload_size_bytes ta_after_1"
    by (simp add: ab_frame_def mk_frame_def ta_after_1_def ta_def)
  have c': "distinct ?grs'"
    by (simp add: ab_frame_def c_crc_frame_def mk_frame_def)
  have d': "set ?grs' = set ?grs" by auto
  have n': "\<not> new_transfer_detected ta_after_1 (hd ?grs') 1"
    by (simp add: new_transfer_detected_def c_crc_frame_def mk_frame_def ta_after_1_def ta_def
          mk_ts_def monotonic_def)
  have cl: "current_transfer_id ta_after_1 = transfer_id (?grs ! 0)"
    "payloads ta_after_1 = []" "max_index ta_after_1 = None"
    by (simp_all add: ab_frame_def mk_frame_def ta_after_1_def ta_def)
  have e': "mk_ts 1000
      = (if new_transfer_detected ta_after_1 (hd ?grs') 1 then timestamp (hd ?grs')
         else first_timestamp ta_after_1)"
    using n' by (simp add: ta_after_1_def)
  have f': "\<forall>f\<in>set ?grs. monotonic (timestamp f) - monotonic (mk_ts 1000) \<le> 1"
    by (simp add: ab_frame_def c_crc_frame_def mk_frame_def mk_ts_def monotonic_def)
  from cl have st: "new_transfer_detected ta_after_1 (hd ?grs') 1
         \<or> current_transfer_id ta_after_1 = transfer_id (?grs ! 0)
            \<and> payloads ta_after_1 = [] \<and> max_index ta_after_1 = None"
    by (intro disjI2 conjI)
  from permutation_invariance [OF a' b' c' d' e' st f']
  have r': "map returned (process_frames crc32c ta_after_1 ?grs' 1)
     = [Inr None,
        Inr (Some \<lparr>tr_timestamp = mk_ts 1000, tr_priority = SLOW, tr_transfer_id = 2,
                    fragmented_payload = [''ab'', ''c''], tr_source_node_id = Some 1234\<rparr>)]"
    using abc_drop_crc
    by (simp add: ab_frame_def c_crc_frame_def mk_frame_def ta_after_1_def ta_def)
  from n r n' cl r' show ?thesis by (intro conjI)
qed

theorem permutation_invariance_counterexample:
  "map returned (process_frames crc32c ta [ab_frame (mk_ts 1000), c_crc_frame (mk_ts 1001)] 2)
     = [Inr None,
        Inr (Some \<lparr>tr_timestamp = mk_ts 1000, tr_priority = SLOW, tr_transfer_id = 2,
                    fragmented_payload = [''ab'', ''c''], tr_source_node_id = Some 1234\<rparr>)]
   \<and> map returned (process_frames crc32c ta [c_crc_frame (mk_ts 1001), ab_frame (mk_ts 1000)] 2)
     = [Inr None,
        Inr (Some \<lparr>tr_timestamp = mk_ts 1001, tr_priority = SLOW, tr_transfer_id = 2,
                    fragmented_payload = [''ab'', ''c''], tr_source_node_id = Some 1234\<rparr>)]
   \<and> mk_ts 1000 \<noteq> mk_ts 1001
   \<and> map returned (process_frames crc32c ta_after_1
         [ab_frame (mk_ts 1001), c_crc_frame (mk_ts 1002)] 1)
     = [Inr None, Inr None]
   \<and> map returned (process_frames crc32c ta_after_1
         [c_crc_frame (mk_ts 1002), ab_frame (mk_ts 1001)] 1)
     = [Inr None,
        Inr (Some \<lparr>tr_timestamp = mk_ts 1002, tr_priority = SLOW, tr_transfer_id = 2,
                    fragmented_payload = [''ab'', ''c''], tr_source_node_id = Some 1234\<rparr>)]"
proof -
  have two: "map returned (process_frames C s [f, g] tmo)
      = [returned (process_frame C s f tmo),
         returned (process_frame C (state_after (process_frame C s f tmo)) g tmo)]"
    for C s f g tmo
    by (simp add: Let_def)
  have a: "map returned
        (process_frames crc32c ta [ab_frame (mk_ts 1000), c_crc_frame (mk_ts 1001)] 2)
     = [Inr None,
        Inr (Some \<lparr>tr_timestamp = mk_ts 1000, tr_priority = SLOW, tr_transfer_id = 2,
                    fragmented_payload = [''ab'', ''c''], tr_source_node_id = Some 1234\<rparr>)]"
    by (simp only: two in_order_first in_order_second outcome.select_convs)
  have b: "map returned
        (process_frames crc32c ta [c_crc_frame (mk_ts 1001), ab_frame (mk_ts 1000)] 2)
     = [Inr None,
        Inr (Some \<lparr>tr_timestamp = mk_ts 1001, tr_priority = SLOW, tr_transfer_id = 2,
                    fragmented_payload = [''ab'', ''c''], tr_source_node_id = Some 1234\<rparr>)]"
    by (simp only: two reversed_first reversed_second outcome.select_convs)
  have c: "mk_ts 1000 \<noteq> mk_ts 1001" by (simp add: mk_ts_def)
  have d: "map returned (process_frames crc32c ta_after_1
         [ab_frame (mk_ts 1001), c_crc_frame (mk_ts 1002)] 1)
     = [Inr None, Inr None]"
    by (simp only: two after_1_in_order_first after_1_in_order_second outcome.select_convs)
  have e: "map returned (process_frames crc32c ta_after_1
         [c_crc_frame (mk_ts 1002), ab_frame (mk_ts 1001)] 1)
     = [Inr None,
        Inr (Some \<lparr>tr_timestamp = mk_ts 1002, tr_priority = SLOW, tr_transfer_id = 2,
                    fragmented_payload = [''ab'', ''c''], tr_source_node_id = Some 1234\<rparr>)]"
    by (simp only: two after_1_reversed_first after_1_reversed_second outcome.select_convs)
  from a b c d e show ?thesis by (intro conjI)
qed

text \<open>
  If the frame delivered first does not start a new transfer, \<open>ts0\<close> is the timestamp of
  the transfer before: the detection of new transfers takes the timestamp of a frame only
  when it restarts, and a frame with exactly the current transfer-ID within the timeout does
  not restart. Two consequences are defects of the code rather than properties of the
  transfer. The timeout of the new transfer is measured from that old timestamp, so frames
  that lie within the timeout of each other are dropped with \<^verbatim>\<open>MULTIFRAME_MISSING_FRAMES\<close>
  in one order (second half of the counterexample above) and emitted in the other. And a
  transfer emitted then carries a timestamp of none of its frames, against the comment
  \<^verbatim>\<open>First frame timestamp\<close> on the attribute.

  The starts not covered are those in which the first frame neither restarts nor finds the
  instance empty on its transfer-ID: its transfer-ID is below the current one within the
  timeout, and it is dropped as stale (Claim C1), or the instance holds fragments or a
  maximum index under the same transfer-ID, which the frames would be mixed with.
\<close>

lemma timeout_measured_from_previous_transfer:
  "map returned (process_frames crc32c ta_after_1
       [ab_frame (mk_ts 1001), c_crc_frame (mk_ts 1002)] 1)
     = [Inr None, Inr None]
   \<and> map fst (on_error_calls (process_frame crc32c
       (state_after (process_frame crc32c ta_after_1 (ab_frame (mk_ts 1001)) 1))
       (c_crc_frame (mk_ts 1002)) 1))
     = [MULTIFRAME_MISSING_FRAMES]
   \<and> monotonic (timestamp (c_crc_frame (mk_ts 1002)))
       - monotonic (timestamp (ab_frame (mk_ts 1001))) \<le> 1"
proof -
  have two: "map returned (process_frames C s [f, g] tmo)
      = [returned (process_frame C s f tmo),
         returned (process_frame C (state_after (process_frame C s f tmo)) g tmo)]"
    for C s f g tmo
    by (simp add: Let_def)
  have a: "map returned (process_frames crc32c ta_after_1
       [ab_frame (mk_ts 1001), c_crc_frame (mk_ts 1002)] 1) = [Inr None, Inr None]"
    by (simp only: two after_1_in_order_first after_1_in_order_second outcome.select_convs)
  have b: "map fst (on_error_calls (process_frame crc32c
       (state_after (process_frame crc32c ta_after_1 (ab_frame (mk_ts 1001)) 1))
       (c_crc_frame (mk_ts 1002)) 1))
     = [MULTIFRAME_MISSING_FRAMES]"
    by (simp only: after_1_in_order_first after_1_in_order_second outcome.select_convs
          list.map fst_conv)
  have c: "monotonic (timestamp (c_crc_frame (mk_ts 1002)))
       - monotonic (timestamp (ab_frame (mk_ts 1001))) \<le> 1"
    by (simp add: c_crc_frame_def ab_frame_def mk_frame_def mk_ts_def monotonic_def)
  from a b c show ?thesis by (intro conjI)
qed

lemma timestamp_of_previous_transfer:
  "map returned (process_frames crc32c ta_after_1
       [ab_frame (mk_ts 1001), c_crc_frame (mk_ts 1001)] 1)
     = [Inr None,
        Inr (Some \<lparr>tr_timestamp = mk_ts 1000, tr_priority = SLOW, tr_transfer_id = 2,
                    fragmented_payload = [''ab'', ''c''], tr_source_node_id = Some 1234\<rparr>)]
   \<and> mk_ts 1000 \<noteq> mk_ts 1001"
proof -
  have two: "map returned (process_frames C s [f, g] tmo)
      = [returned (process_frame C s f tmo),
         returned (process_frame C (state_after (process_frame C s f tmo)) g tmo)]"
    for C s f g tmo
    by (simp add: Let_def)
  have a: "map returned (process_frames crc32c ta_after_1
       [ab_frame (mk_ts 1001), c_crc_frame (mk_ts 1001)] 1)
     = [Inr None,
        Inr (Some \<lparr>tr_timestamp = mk_ts 1000, tr_priority = SLOW, tr_transfer_id = 2,
                    fragmented_payload = [''ab'', ''c''], tr_source_node_id = Some 1234\<rparr>)]"
    by (simp only: two after_1_in_order_first after_1_same_time_second outcome.select_convs)
  have b: "mk_ts 1000 \<noteq> mk_ts 1001" by (simp add: mk_ts_def)
  from a b show ?thesis by (intro conjI)
qed

text \<open>
  The hypothesis on the first fragment cannot be dropped. The size of the stored payloads
  is reduced by the size of the CRC only when more than one fragment is held, so a first
  frame that carries part of the CRC and arrives first can exceed the limit although the
  payload of the transfer does not; the same two frames in the other order are accepted.
\<close>

lemma split_residue:
  "check_residue crc32c [[CHR ''a'', CHR ''b'', CHR ''c'', CHR 0xB7], [CHR 0x3F, CHR 0x4B, CHR 0x36]]"
  by (simp add: crc32c_eval eval_nat_numeral)

lemma split_drop_crc:
  "drop_crc crc32c [[CHR ''a'', CHR ''b'', CHR ''c'', CHR 0xB7], [CHR 0x3F, CHR 0x4B, CHR 0x36]]
     = [''abc'']"
  by (simp add: drop_crc_def drop_crc_loop.simps)

lemma split_in_order_first:
  "process_frame crc32c ta_limit_3 abc_crc1_frame 1
     = \<lparr>returned = Inr None,
        on_error_calls = [(PAYLOAD_SIZE_EXCEEDS_LIMIT,
           ta_limit_3\<lparr>payloads := [[CHR ''a'', CHR ''b'', CHR ''c'', CHR 0xB7]],
                       first_timestamp := mk_ts 1000, current_transfer_id := 2\<rparr>)],
        state_after = ta_limit_3\<lparr>first_timestamp := mk_ts 1000, current_transfer_id := 3\<rparr>\<rparr>"
  by (simp add: pf_eval ta_limit_3_def abc_crc1_frame_def)

lemma split_in_order_second:
  "returned (process_frame crc32c
       (ta_limit_3\<lparr>first_timestamp := mk_ts 1000, current_transfer_id := 3\<rparr>) crc3_frame 1)
     = Inr None"
  by (simp add: pf_eval ta_limit_3_def crc3_frame_def)

lemma split_reversed_first:
  "process_frame crc32c ta_limit_3 crc3_frame 1
     = \<lparr>returned = Inr None, on_error_calls = [],
        state_after = ta_limit_3\<lparr>payloads := [[], [CHR 0x3F, CHR 0x4B, CHR 0x36]],
           max_index := Some 1, first_timestamp := mk_ts 1000, current_transfer_id := 2\<rparr>\<rparr>"
  by (simp add: pf_eval ta_limit_3_def crc3_frame_def)

lemma split_reversed_second:
  "returned (process_frame crc32c
       (ta_limit_3\<lparr>payloads := [[], [CHR 0x3F, CHR 0x4B, CHR 0x36]],
           max_index := Some 1, first_timestamp := mk_ts 1000, current_transfer_id := 2\<rparr>)
       abc_crc1_frame 1)
     = Inr (Some \<lparr>tr_timestamp = mk_ts 1000, tr_priority = SLOW, tr_transfer_id = 2,
                    fragmented_payload = [''abc''], tr_source_node_id = Some 1234\<rparr>)"
  by (simp add: pf_eval ta_limit_3_def abc_crc1_frame_def split_residue split_drop_crc)

lemma size_limit_depends_on_order:
  "map returned (process_frames crc32c ta_limit_3 [abc_crc1_frame, crc3_frame] 1)
     = [Inr None, Inr None]
   \<and> map fst (on_error_calls (process_frame crc32c ta_limit_3 abc_crc1_frame 1))
     = [PAYLOAD_SIZE_EXCEEDS_LIMIT]
   \<and> map returned (process_frames crc32c ta_limit_3 [crc3_frame, abc_crc1_frame] 1)
     = [Inr None,
        Inr (Some \<lparr>tr_timestamp = mk_ts 1000, tr_priority = SLOW, tr_transfer_id = 2,
                    fragmented_payload = [''abc''], tr_source_node_id = Some 1234\<rparr>)]"
proof -
  have two: "map returned (process_frames C s [f, g] tmo)
      = [returned (process_frame C s f tmo),
         returned (process_frame C (state_after (process_frame C s f tmo)) g tmo)]"
    for C s f g tmo
    by (simp add: Let_def)
  have a: "map returned (process_frames crc32c ta_limit_3 [abc_crc1_frame, crc3_frame] 1)
     = [Inr None, Inr None]"
    by (simp only: two split_in_order_first split_in_order_second outcome.select_convs)
  have b: "map fst (on_error_calls (process_frame crc32c ta_limit_3 abc_crc1_frame 1))
     = [PAYLOAD_SIZE_EXCEEDS_LIMIT]"
    by (simp add: split_in_order_first)
  have c: "map returned (process_frames crc32c ta_limit_3 [crc3_frame, abc_crc1_frame] 1)
     = [Inr None,
        Inr (Some \<lparr>tr_timestamp = mk_ts 1000, tr_priority = SLOW, tr_transfer_id = 2,
                    fragmented_payload = [''abc''], tr_source_node_id = Some 1234\<rparr>)]"
    by (simp only: two split_reversed_first split_reversed_second outcome.select_convs)
  from a b c show ?thesis by (intro conjI)
qed

end
